theory Spec2Isabelle
  imports Main "HOL-Library.AList"
begin

section \<open>JavaScript values, awaitables and listener outcomes\<close>

text \<open>
  The values that flow through listeners, actions and promises. Objects are opaque and
  told apart by a number; errors are values like any other, since JavaScript throws and
  rejects with arbitrary values. \<open>TypeError\<close> is the error the engine itself raises when
  a property of \<^verbatim>\<open>undefined\<close> or \<^verbatim>\<open>null\<close> is read or something that is not a function is
  called.
\<close>

datatype jsval = Undefined | Null | Bool bool | Num int | Str string | Obj nat | TypeError

fun truthy :: "jsval \<Rightarrow> bool" where
  "truthy Undefined = False"
| "truthy Null = False"
| "truthy (Bool b) = b"
| "truthy (Num n) = (n \<noteq> 0)"
| "truthy (Str s) = (s \<noteq> [])"
| "truthy (Obj k) = True"
| "truthy TypeError = True"

text \<open>Reading a property of \<^verbatim>\<open>undefined\<close> or \<^verbatim>\<open>null\<close> raises; of any other value it does not.\<close>

fun nullish :: "jsval \<Rightarrow> bool" where
  "nullish Undefined = True"
| "nullish Null = True"
| "nullish (Bool b) = False"
| "nullish (Num n) = False"
| "nullish (Str s) = False"
| "nullish (Obj k) = False"
| "nullish TypeError = False"

text \<open>
  An awaitable handed back by user code is described by its fate: it fulfils with a value,
  rejects with a reason, or stays pending for ever. A promise built by the library is
  observed in its final state.
\<close>

datatype fate = Fulfils jsval | Rejects jsval | Never

datatype ('a, 'e) promised = Pending | Resolved 'a | Rejected 'e

type_synonym promise = "(jsval, jsval) promised"

text \<open>
  A listener either throws or returns. The emit disciplines test the returned value with
  \<^verbatim>\<open>if (response)\<close> and call \<^verbatim>\<open>response.then\<close> on a truthy one. So what a listener
  returns is a falsy value, or an awaitable (an object whose \<^verbatim>\<open>then\<close> and \<^verbatim>\<open>catch\<close> are
  those of a promise), or a truthy value that has no \<^verbatim>\<open>then\<close>, such as \<^verbatim>\<open>true\<close> or a
  number other than zero: there the call \<^verbatim>\<open>response.then(...)\<close> raises a
  \<^verbatim>\<open>TypeError\<close>.
\<close>

datatype response = Falsy | Awaitable fate | NotThenable jsval

datatype outcome = Returns response | Throws jsval

section \<open>Notifier and Evented\<close>

text \<open>
  A listener is the pair \<^verbatim>\<open>[callback, binding]\<close>. The binding defaults to the evented
  object itself (\<^verbatim>\<open>_binding || this\<close>).
\<close>

datatype 'b binding = This | Bound 'b

type_synonym ('c, 'b) listener = "'c \<times> 'b binding"

type_synonym ('c, 'b) notifier = "('c, 'b) listener list"

text \<open>
  Modelled from the spec: the Notifier class (imported from \<^verbatim>\<open>./notifier\<close>, not among the
  sources). It keeps its listeners in registration order; \<^verbatim>\<open>addListener\<close> appends the
  pair and \<^verbatim>\<open>removeListener\<close> takes the matching callback/binding pair out.
\<close>

definition addListener :: "('c, 'b) notifier \<Rightarrow> 'c \<Rightarrow> 'b binding \<Rightarrow> ('c, 'b) notifier" where
  "addListener n callback binding = n @ [(callback, binding)]"

definition removeListener :: "('c, 'b) notifier \<Rightarrow> 'c \<Rightarrow> 'b binding \<Rightarrow> ('c, 'b) notifier" where
  "removeListener n callback binding = remove1 (callback, binding) n"

text \<open>
  The evented object carries the table \<^verbatim>\<open>_eventedNotifiers\<close> from event name to notifier.
  The table is created on first use; an absent table and an empty one answer every lookup
  alike, so the model starts from the empty table.
\<close>

record ('c, 'b) evented =
  eventedNotifiers :: "string \<rightharpoonup> ('c, 'b) notifier"

definition newEvented :: "('c, 'b) evented" where
  "newEvented = \<lparr> eventedNotifiers = Map.empty \<rparr>"

definition notifierForEvent ::
  "('c, 'b) evented \<Rightarrow> string \<Rightarrow> bool \<Rightarrow> ('c, 'b) notifier option \<times> ('c, 'b) evented" where
  "notifierForEvent object eventName createIfUndefined =
     (case eventedNotifiers object eventName of
        Some n \<Rightarrow> (Some n, object)
      | None \<Rightarrow>
          if createIfUndefined
          then (Some [], object\<lparr>eventedNotifiers := (eventedNotifiers object)(eventName \<mapsto> [])\<rparr>)
          else (None, object))"

definition removeNotifierForEvent :: "('c, 'b) evented \<Rightarrow> string \<Rightarrow> ('c, 'b) evented" where
  "removeNotifierForEvent object eventName =
     (case eventedNotifiers object eventName of
        Some n \<Rightarrow> object\<lparr>eventedNotifiers := (eventedNotifiers object)(eventName := None)\<rparr>
      | None \<Rightarrow> object)"

text \<open>
  \<^verbatim>\<open>eventNames.split(/\s+/)\<close>: the names between maximal runs of white space. A leading
  or trailing run leaves an empty name at that end, and the empty string splits into one
  empty name. White space is taken among the ASCII characters.
\<close>

definition isSpace :: "char \<Rightarrow> bool" where
  "isSpace c = (c \<in> set [CHR '' '', CHR 0x09, CHR 0x0A, CHR 0x0B, CHR 0x0C, CHR 0x0D])"

function splitSpaces :: "string \<Rightarrow> string list" where
  "splitSpaces [] = [[]]"
| "splitSpaces (c # cs) =
     (if isSpace c then [] # splitSpaces (dropWhile isSpace cs)
      else (case splitSpaces cs of
              [] \<Rightarrow> [[c]]
            | t # ts \<Rightarrow> (c # t) # ts))"
  by pat_completeness auto
termination
  by (relation "measure length") (auto simp: length_dropWhile_le less_Suc_eq_le)

definition bindingOf :: "'b option \<Rightarrow> 'b binding" where
  "bindingOf b = (case b of None \<Rightarrow> This | Some x \<Rightarrow> Bound x)"

definition onEvent ::
  "'c \<Rightarrow> 'b binding \<Rightarrow> ('c, 'b) evented \<Rightarrow> string \<Rightarrow> ('c, 'b) evented" where
  "onEvent callback binding object eventName =
     (case notifierForEvent object eventName True of
        (Some n, object') \<Rightarrow>
          object'\<lparr>eventedNotifiers :=
            (eventedNotifiers object')(eventName \<mapsto> addListener n callback binding)\<rparr>
      | (None, object') \<Rightarrow> object')"

definition on :: "('c, 'b) evented \<Rightarrow> string \<Rightarrow> 'c \<Rightarrow> 'b option \<Rightarrow> ('c, 'b) evented" where
  "on object eventNames callback b =
     foldl (onEvent callback (bindingOf b)) object (splitSpaces eventNames)"

definition offEvent ::
  "'c option \<Rightarrow> 'b binding \<Rightarrow> ('c, 'b) evented \<Rightarrow> string \<Rightarrow> ('c, 'b) evented" where
  "offEvent callback binding object eventName =
     (case notifierForEvent object eventName False of
        (Some n, object') \<Rightarrow>
          (case callback of
             Some cb \<Rightarrow>
               object'\<lparr>eventedNotifiers :=
                 (eventedNotifiers object')(eventName \<mapsto> removeListener n cb binding)\<rparr>
           | None \<Rightarrow> removeNotifierForEvent object' eventName)
      | (None, object') \<Rightarrow> object')"

definition off :: "('c, 'b) evented \<Rightarrow> string \<Rightarrow> 'c option \<Rightarrow> 'b option \<Rightarrow> ('c, 'b) evented" where
  "off object eventNames callback b =
     foldl (offEvent callback (bindingOf b)) object (splitSpaces eventNames)"

definition listenersStep ::
  "('c, 'b) evented \<Rightarrow> ('c, 'b) listener list \<Rightarrow> string \<Rightarrow> ('c, 'b) listener list" where
  "listenersStep object acc eventName =
     (case fst (notifierForEvent object eventName False) of
        Some n \<Rightarrow> acc @ n
      | None \<Rightarrow> acc)"

definition listeners :: "('c, 'b) evented \<Rightarrow> string \<Rightarrow> ('c, 'b) listener list" where
  "listeners object eventNames = foldl (listenersStep object) [] (splitSpaces eventNames)"

section \<open>The emit disciplines\<close>

text \<open>
  A callback runs against the state of the world and may change it; \<open>call\<close> gives, for
  a listener, the arguments and the world before the call, the outcome and the world after.
  Every discipline reports the final state of the promise it returns, the listeners it has
  invoked, in order, and the world it leaves.
\<close>

type_synonym ('l, 'w) caller = "'l \<Rightarrow> jsval list \<Rightarrow> 'w \<Rightarrow> outcome \<times> 'w"



text \<open>
  \<^verbatim>\<open>resolve\<close>: nothing catches a throwing listener. While the calls are still made
  synchronously from the executor the exception rejects the promise; once a rejected
  awaitable has moved the iteration into a \<^verbatim>\<open>catch\<close> callback, the exception is lost
  there and the promise stays pending. The flag tells the two situations apart. The
  \<^verbatim>\<open>TypeError\<close> of \<^verbatim>\<open>response.then\<close> on a truthy value without \<^verbatim>\<open>then\<close> is such an
  exception.
\<close>

fun resolveEach ::
  "('l, 'w) caller \<Rightarrow> bool \<Rightarrow> 'l list \<Rightarrow> jsval list \<Rightarrow> 'w \<Rightarrow> promise \<times> 'l list \<times> 'w" where
  "resolveEach call inExecutor [] args w = (Rejected Undefined, [], w)"
| "resolveEach call inExecutor (l # ls) args w =
     (case call l args w of
        (Throws e, w') \<Rightarrow> (if inExecutor then Rejected e else Pending, [l], w')
      | (Returns Falsy, w') \<Rightarrow>
          (case resolveEach call inExecutor ls args w' of (p, tr, w'') \<Rightarrow> (p, l # tr, w''))
      | (Returns (Awaitable (Fulfils v)), w') \<Rightarrow> (Resolved v, [l], w')
      | (Returns (Awaitable (Rejects e)), w') \<Rightarrow>
          (case resolveEach call False ls args w' of (p, tr, w'') \<Rightarrow> (p, l # tr, w''))
      | (Returns (Awaitable Never), w') \<Rightarrow> (Pending, [l], w')
      | (Returns (NotThenable v), w') \<Rightarrow>
          (if inExecutor then Rejected TypeError else Pending, [l], w'))"

definition resolve ::
  "('c \<times> 'b binding, 'w) caller \<Rightarrow> ('c, 'b) evented \<Rightarrow> string \<Rightarrow> jsval list \<Rightarrow> 'w
     \<Rightarrow> promise \<times> ('c, 'b) listener list \<times> 'w" where
  "resolve call object eventNames args w =
     resolveEach call True (listeners object eventNames) args w"

text \<open>
  \<^verbatim>\<open>settle\<close>. The function \<^verbatim>\<open>settleEach\<close> of \<^verbatim>\<open>settle\<close> is called from three places:
  from the executor of the promise, from itself (\<^verbatim>\<open>settleEach();\<close> in the \<^verbatim>\<open>else\<close>
  branch, the result dropped), and from the callbacks given to \<^verbatim>\<open>then\<close> and
  \<^verbatim>\<open>catch\<close>, which hand its result on. So a call of \<^verbatim>\<open>settleEach\<close> ends in one of
  three ways: it returns \<^verbatim>\<open>undefined\<close>, it raises, or it returns the promise
  \<^verbatim>\<open>response.then(...).catch(...)\<close>, given here by its final state.
\<close>

datatype step = Returned | Raised jsval | Chained promise

text \<open>
  The promise that \<^verbatim>\<open>then\<close> or \<^verbatim>\<open>catch\<close> returns when the callback it ran has ended
  with the given step: fulfilled with what the callback returned, rejected with what it
  raised, or following the promise it returned.
\<close>

fun handled :: "step \<Rightarrow> promise" where
  "handled Returned = Resolved Undefined"
| "handled (Raised e) = Rejected e"
| "handled (Chained p) = p"

text \<open>
  The statement \<^verbatim>\<open>settleEach();\<close> at the end of the function: an exception of the inner
  call passes through, anything it returns is dropped and \<^verbatim>\<open>undefined\<close> is returned.
\<close>

fun passed :: "step \<Rightarrow> step" where
  "passed (Raised e) = Raised e"
| "passed Returned = Returned"
| "passed (Chained p) = Returned"

text \<open>
  The variables the calls of \<^verbatim>\<open>settleEach\<close> share: \<open>waiting\<close> is the array
  \<^verbatim>\<open>listeners\<close>, from which \<^verbatim>\<open>shift\<close> takes the next listener; \<open>resolved\<close> tells
  whether \<^verbatim>\<open>resolve()\<close> has been called. \<open>invoked\<close> records the listeners called so far
  and \<open>console\<close> the errors written by \<^verbatim>\<open>console.error(e.stack || e)\<close>.
\<close>

record ('l, 'w) settling =
  waiting :: "'l list"
  invoked :: "'l list"
  world :: 'w
  console :: "jsval list"
  resolved :: bool

text \<open>
  One call of \<^verbatim>\<open>settleEach\<close>, with all that follows from it. Only the call of the
  listener is inside \<^verbatim>\<open>try\<close>. In the \<^verbatim>\<open>catch\<close> block \<^verbatim>\<open>e.stack\<close> is read, which raises
  a \<^verbatim>\<open>TypeError\<close> when the listener has thrown \<^verbatim>\<open>undefined\<close> or \<^verbatim>\<open>null\<close>; otherwise
  the error is written and the function goes on as after a falsy response. On a truthy
  response \<^verbatim>\<open>response.then\<close> is called, outside \<^verbatim>\<open>try\<close>. When the awaitable fulfils,
  the callback of \<^verbatim>\<open>then\<close> calls \<^verbatim>\<open>settleEach\<close>; if that call raises, or the promise it
  returns rejects, the promise of \<^verbatim>\<open>then\<close> rejects and the callback of \<^verbatim>\<open>catch\<close> calls
  \<^verbatim>\<open>settleEach\<close> once more, on what is left of the array. When the awaitable rejects,
  only the callback of \<^verbatim>\<open>catch\<close> runs.
\<close>

function settleEach ::
  "('l, 'w) caller \<Rightarrow> jsval list \<Rightarrow> ('l, 'w) settling \<Rightarrow> step \<times> ('l, 'w) settling" where
  "settleEach call args s =
     (case waiting s of
        [] \<Rightarrow> (Returned, s\<lparr>resolved := True\<rparr>)
      | l # ls \<Rightarrow>
          (case call l args (world s) of (out, w') \<Rightarrow>
             let s' = s\<lparr>waiting := ls, invoked := invoked s @ [l], world := w'\<rparr> in
             (case out of
                Throws e \<Rightarrow>
                  if nullish e then (Raised TypeError, s')
                  else (case settleEach call args (s'\<lparr>console := console s' @ [e]\<rparr>) of
                          (r, s'') \<Rightarrow> (passed r, s''))
              | Returns Falsy \<Rightarrow>
                  (case settleEach call args s' of (r, s'') \<Rightarrow> (passed r, s''))
              | Returns (NotThenable v) \<Rightarrow> (Raised TypeError, s')
              | Returns (Awaitable Never) \<Rightarrow> (Chained Pending, s')
              | Returns (Awaitable (Rejects e)) \<Rightarrow>
                  (case settleEach call args s' of (r, s'') \<Rightarrow> (Chained (handled r), s''))
              | Returns (Awaitable (Fulfils v)) \<Rightarrow>
                  (case settleEach call args s' of (r, s'') \<Rightarrow>
                     (case handled r of
                        Rejected e \<Rightarrow>
                          (case settleEach call args s'' of
                             (r', s''') \<Rightarrow> (Chained (handled r'), s'''))
                      | Resolved u \<Rightarrow> (Chained (Resolved u), s'')
                      | Pending \<Rightarrow> (Chained Pending, s''))))))"
  by pat_completeness auto

text \<open>
  Every call takes a listener from the array or leaves the array as it is, so the calls
  come to an end.
\<close>

lemma settleEach_shifts:
  "settleEach_dom (call, args, s) \<Longrightarrow>
     length (waiting (snd (settleEach call args s))) \<le> length (waiting s)"
proof (induction rule: settleEach.pinduct)
  case (1 call args s)
  show ?case
  proof (cases "waiting s")
    case Nil
    with 1(1) show ?thesis by (simp add: settleEach.psimps)
  next
    case (Cons l ls)
    obtain out w' where c: "call l args (world s) = (out, w')" by (cases "call l args (world s)")
    define s' where "s' = s\<lparr>waiting := ls, invoked := invoked s @ [l], world := w'\<rparr>"
    have w: "length (waiting s') < length (waiting s)" by (simp add: s'_def Cons)
    show ?thesis
    proof (cases out)
      case (Throws e)
      from 1(6)[OF Cons c[symmetric] s'_def Throws] w
      show ?thesis using 1(1) Cons c Throws
        by (auto simp: settleEach.psimps s'_def[symmetric] case_prod_beta)
    next
      case (Returns r)
      show ?thesis
      proof (cases r)
        case Falsy
        from 1(2)[OF Cons c[symmetric] s'_def Returns Falsy] w
        show ?thesis using 1(1) Cons c Returns Falsy
          by (simp add: settleEach.psimps s'_def[symmetric] case_prod_beta)
      next
        case (NotThenable v)
        with w show ?thesis using 1(1) Cons c Returns
          by (simp add: settleEach.psimps s'_def[symmetric])
      next
        case (Awaitable f)
        show ?thesis
        proof (cases f)
          case Never
          with w show ?thesis using 1(1) Cons c Returns Awaitable
            by (simp add: settleEach.psimps s'_def[symmetric])
        next
          case (Rejects e)
          from 1(5)[OF Cons c[symmetric] s'_def Returns Awaitable Rejects] w
          show ?thesis using 1(1) Cons c Returns Awaitable Rejects
            by (simp add: settleEach.psimps s'_def[symmetric] case_prod_beta)
        next
          case (Fulfils v)
          obtain r1 s1 where h: "settleEach call args s' = (r1, s1)"
            by (cases "settleEach call args s'")
          from 1(3)[OF Cons c[symmetric] s'_def Returns Awaitable Fulfils] h w
          have one: "length (waiting s1) < length (waiting s)" by simp
          show ?thesis
          proof (cases "handled r1")
            case (Rejected e)
            from 1(4)[OF Cons c[symmetric] s'_def Returns Awaitable Fulfils h[symmetric] Rejected] one
            show ?thesis using 1(1) Cons c Returns Awaitable Fulfils h Rejected
              by (simp add: settleEach.psimps s'_def[symmetric] case_prod_beta)
          next
            case Pending
            with one show ?thesis using 1(1) Cons c Returns Awaitable Fulfils h
              by (simp add: settleEach.psimps s'_def[symmetric])
          next
            case (Resolved u)
            with one show ?thesis using 1(1) Cons c Returns Awaitable Fulfils h
              by (simp add: settleEach.psimps s'_def[symmetric])
          qed
        qed
      qed
    qed
  qed
qed

termination settleEach
proof (relation "measure (\<lambda>(call, args, s). length (waiting s))", simp_all)
  fix call :: "('l, 'w) caller" and args and s s1 :: "('l, 'w) settling" and l ls w' r1
  assume h: "(r1, s1) =
      settleEach call args (s\<lparr>waiting := ls, invoked := invoked s @ [l], world := w'\<rparr>)"
    and d: "settleEach_dom
      (call, args, s\<lparr>waiting := ls, invoked := invoked s @ [l], world := w'\<rparr>)"
  from h have "s1 =
      snd (settleEach call args (s\<lparr>waiting := ls, invoked := invoked s @ [l], world := w'\<rparr>))"
    by (metis snd_conv)
  with settleEach_shifts[OF d] show "length (waiting s1) < Suc (length ls)"
    by simp
qed

declare settleEach.simps [simp del]

text \<open>
  The executor of \<^verbatim>\<open>settle\<close> is given \<^verbatim>\<open>resolve\<close> only and calls \<^verbatim>\<open>settleEach()\<close>. The
  promise is resolved when \<^verbatim>\<open>resolve()\<close> has been called; it is rejected when that first
  call raises, as an executor that raises rejects its promise; what the first call returns
  is dropped.
\<close>

fun executed :: "step \<Rightarrow> bool \<Rightarrow> promise" where
  "executed r True = Resolved Undefined"
| "executed (Raised e) False = Rejected e"
| "executed Returned False = Pending"
| "executed (Chained p) False = Pending"

definition settle ::
  "('c \<times> 'b binding, 'w) caller \<Rightarrow> ('c, 'b) evented \<Rightarrow> string \<Rightarrow> jsval list \<Rightarrow> 'w
     \<Rightarrow> promise \<times> ('c, 'b) listener list \<times> 'w \<times> jsval list" where
  "settle call object eventNames args w =
     (case settleEach call args
             \<lparr>waiting = listeners object eventNames, invoked = [], world = w, console = [],
              resolved = False\<rparr> of
        (r, s) \<Rightarrow> (executed r (resolved s), invoked s, world s, console s))"

text \<open>
  The outcomes the listeners of a list produce when each of them is called in turn, the
  world handed from one to the next. A discipline that stops early sees a prefix of them.
\<close>

fun outcomes :: "('l, 'w) caller \<Rightarrow> 'l list \<Rightarrow> jsval list \<Rightarrow> 'w \<Rightarrow> outcome list" where
  "outcomes call [] args w = []"
| "outcomes call (l # ls) args w =
     (case call l args w of (out, w') \<Rightarrow> out # outcomes call ls args w')"



fun settles :: "outcome \<Rightarrow> bool" where
  "settles (Returns (Awaitable Never)) = False"
| "settles (Returns (Awaitable (Fulfils v))) = True"
| "settles (Returns (Awaitable (Rejects e))) = True"
| "settles (Returns Falsy) = True"
| "settles (Throws e) = True"
| "settles (Returns (NotThenable v)) = True"

section \<open>Action\<close>

text \<open>
  What one run of the wrapped function \<^verbatim>\<open>_process\<close> does: it raises, or it returns a
  plain value, or it returns an object with a \<^verbatim>\<open>then\<close>, given by its fate.
\<close>

datatype returned = Plain jsval | Thenable fate

datatype attempt = Gives returned | Raises jsval

text \<open>
  The fields of an action. \<open>processFn\<close> is the wrapped function \<^verbatim>\<open>_process\<close>; it may
  answer differently from one run to the next, so it is given the number of earlier runs,
  which \<open>runs\<close> counts. \<open>complete\<close> is the state of the promise the field
  \<^verbatim>\<open>complete\<close> holds and \<open>completeRef\<close> tells which promise object that is: every
  \<^verbatim>\<open>new Orbit.Promise\<close> is a new object. The handlers \<^verbatim>\<open>didProcess\<close> and
  \<^verbatim>\<open>didNotProcess\<close> are those of the promise the last \<^verbatim>\<open>reset()\<close> has made, which
  is the promise in \<^verbatim>\<open>complete\<close>; a promise settles once. An awaitable returned by the
  wrapped function is followed up to its fate.
\<close>

record action =
  actionId :: jsval
  actionData :: jsval
  processFn :: "nat \<Rightarrow> attempt"
  processing :: bool
  complete :: promise
  completeRef :: nat
  runs :: nat

definition reset :: "action \<Rightarrow> action" where
  "reset a = a\<lparr> processing := False, complete := Pending, completeRef := Suc (completeRef a) \<rparr>"

definition newAction :: "jsval \<Rightarrow> jsval \<Rightarrow> (nat \<Rightarrow> attempt) \<Rightarrow> action" where
  "newAction i d f =
     reset \<lparr> actionId = i, actionData = d, processFn = f, processing = False,
             complete = Pending, completeRef = 0, runs = 0 \<rparr>"

definition didProcess :: "jsval \<Rightarrow> action \<Rightarrow> action" where
  "didProcess v a = (if complete a = Pending then a\<lparr> complete := Resolved v \<rparr> else a)"

definition didNotProcess :: "jsval \<Rightarrow> action \<Rightarrow> action" where
  "didNotProcess e a =
     (let a' = a\<lparr> processing := False \<rparr>
      in if complete a' = Pending then a'\<lparr> complete := Rejected e \<rparr> else a')"

text \<open>\<^verbatim>\<open>process()\<close> returns \<^verbatim>\<open>this.complete\<close>; the model returns the action, whose field it is.\<close>

definition process :: "action \<Rightarrow> action" where
  "process a =
     (if \<not> processing a then
        (let a' = a\<lparr> processing := True, runs := Suc (runs a) \<rparr>
         in case processFn a (runs a) of
              Raises e \<Rightarrow> didNotProcess e a'
            | Gives (Plain v) \<Rightarrow> didProcess v a'
            | Gives (Thenable (Fulfils v)) \<Rightarrow> didProcess v a'
            | Gives (Thenable (Rejects e)) \<Rightarrow> didNotProcess e a'
            | Gives (Thenable Never) \<Rightarrow> a')
      else a)"

fun fails :: "attempt \<Rightarrow> jsval option" where
  "fails (Raises e) = Some e"
| "fails (Gives (Thenable (Rejects e))) = Some e"
| "fails (Gives (Thenable (Fulfils v))) = None"
| "fails (Gives (Thenable Never)) = None"
| "fails (Gives (Plain v)) = None"

fun yields :: "attempt \<Rightarrow> jsval option" where
  "yields (Gives (Plain v)) = Some v"
| "yields (Gives (Thenable (Fulfils v))) = Some v"
| "yields (Gives (Thenable (Rejects e))) = None"
| "yields (Gives (Thenable Never)) = None"
| "yields (Raises e) = None"

section \<open>JSONAPISource\<close>

text \<open>
  The serializer is an instance of a class that is not among the sources; the source calls
  three of its methods, which are taken as they come.
\<close>

record serializer =
  resourceType :: "string \<Rightarrow> string"
  resourceId :: "string \<Rightarrow> string \<Rightarrow> string option"
  resourceRelationship :: "string \<Rightarrow> string \<Rightarrow> string"

text \<open>
  The fields the constructor sets, but for the headers, which no address and no limit
  depends on; the serializer is given ready-made. An option that was not given is
  \<^verbatim>\<open>undefined\<close>, here \<open>None\<close>. The two limits are numbers of requests.
\<close>

record jsonapiSource =
  name :: string
  namespace :: "string option"
  host :: "string option"
  maxRequestsPerFetch :: "int option"
  maxRequestsPerTransform :: "int option"
  serializer :: serializer

record jsonapiOptions =
  optName :: "string option"
  optNamespace :: "string option"
  optHost :: "string option"
  optMaxRequestsPerFetch :: "int option"
  optMaxRequestsPerTransform :: "int option"
  optSerializer :: serializer

text \<open>JavaScript's test of a string and of a number: the empty string and zero are falsy.\<close>

definition truthyStr :: "string option \<Rightarrow> bool" where
  "truthyStr s = (case s of None \<Rightarrow> False | Some t \<Rightarrow> t \<noteq> [])"

definition truthyNum :: "int option \<Rightarrow> bool" where
  "truthyNum n = (case n of None \<Rightarrow> False | Some k \<Rightarrow> k \<noteq> 0)"

definition newJSONAPISource :: "jsonapiOptions \<Rightarrow> jsonapiSource" where
  "newJSONAPISource options =
     \<lparr> name = (if truthyStr (optName options) then the (optName options) else ''jsonapi''),
       namespace = optNamespace options,
       host = optHost options,
       maxRequestsPerFetch = optMaxRequestsPerFetch options,
       maxRequestsPerTransform = optMaxRequestsPerTransform options,
       serializer = optSerializer options \<rparr>"

text \<open>\<^verbatim>\<open>Array.prototype.join\<close> on strings.\<close>

fun join :: "string \<Rightarrow> string list \<Rightarrow> string" where
  "join sep [] = []"
| "join sep [x] = x"
| "join sep (x # y # ys) = x @ sep @ join sep (y # ys)"

definition resourceNamespace :: "jsonapiSource \<Rightarrow> string \<Rightarrow> string option" where
  "resourceNamespace src type = namespace src"

definition resourceHost :: "jsonapiSource \<Rightarrow> string \<Rightarrow> string option" where
  "resourceHost src type = host src"

definition resourcePath :: "jsonapiSource \<Rightarrow> string \<Rightarrow> string option \<Rightarrow> string" where
  "resourcePath src type id' =
     (let path = [resourceType (serializer src) type];
          path = (if truthyStr id' then
                    (let rid = resourceId (serializer src) type (the id')
                     in if truthyStr rid then path @ [the rid] else path)
                  else path)
      in join ''/'' path)"

definition resourceURL :: "jsonapiSource \<Rightarrow> string \<Rightarrow> string option \<Rightarrow> string" where
  "resourceURL src type id' =
     (let host = resourceHost src type;
          namespace = resourceNamespace src type;
          url = [];
          url = (if truthyStr host then url @ [the host] else url);
          url = (if truthyStr namespace then url @ [the namespace] else url);
          url = url @ [resourcePath src type id'];
          url = join ''/'' url
      in if \<not> truthyStr host then ''/'' @ url else url)"

definition resourceRelationshipURL ::
  "jsonapiSource \<Rightarrow> string \<Rightarrow> string option \<Rightarrow> string \<Rightarrow> string" where
  "resourceRelationshipURL src type id' relationship =
     resourceURL src type id' @ ''/relationships/'' @
       resourceRelationship (serializer src) type relationship"

definition relatedResourceURL ::
  "jsonapiSource \<Rightarrow> string \<Rightarrow> string option \<Rightarrow> string \<Rightarrow> string" where
  "relatedResourceURL src type id' relationship =
     resourceURL src type id' @ ''/'' @ resourceRelationship (serializer src) type relationship"

text \<open>
  Modelled from the spec: the \<^verbatim>\<open>addToHasMany\<close> entry of \<^verbatim>\<open>TransformRequestProcessors\<close>
  (module \<^verbatim>\<open>./jsonapi/transform-requests\<close>, not among the sources), as far as the request
  line goes: the spec gives it as \<^verbatim>\<open>POST /{type}/{id}/relationships/{rel}\<close>, the
  address being the relationship address of the source.
\<close>

datatype httpMethod = GET | POST | PATCH | DELETE

definition addToHasManyRequest ::
  "jsonapiSource \<Rightarrow> string \<times> string \<Rightarrow> string \<Rightarrow> httpMethod \<times> string" where
  "addToHasManyRequest src record relationship =
     (POST, resourceRelationshipURL src (fst record) (Some (snd record)) relationship)"

text \<open>
  Reasons for which a source rejects. The two \<^verbatim>\<open>NotAllowed\<close> exceptions carry a message
  that names the number of requests and the limit, and the transform or the query.
  \<open>NotAFunction\<close> is the \<^verbatim>\<open>TypeError\<close> of calling a processor the table does not have.
\<close>

datatype ('t, 'q) reason =
    TransformNotAllowed nat int 't
  | FetchNotAllowed nat int 'q
  | NotAFunction
  | Reason jsval

text \<open>
  A request processor returns a promise: of further transforms (or of nothing), or one
  that rejects, or one that never settles. A processor that throws is called inside a
  \<^verbatim>\<open>then\<close> callback, which turns the exception into a rejection. The processors act on
  the world (the server); \<open>processors\<close> stands for the lookup \<^verbatim>\<open>processors[request.op]\<close>.
\<close>

datatype 't processed = Done "'t list option" | Fails jsval | Hangs

type_synonym ('r, 't, 'w) processors =
  "'r \<Rightarrow> (jsonapiSource \<Rightarrow> 'r \<Rightarrow> 'w \<Rightarrow> 't processed \<times> 'w) option"

text \<open>
  \<^verbatim>\<open>_processRequests\<close> chains one \<^verbatim>\<open>then\<close> per request; a rejection skips the callbacks
  that follow. The result is the final promise, the requests handed to a processor, in
  order, and the world.
\<close>

fun processRequestsFrom ::
  "jsonapiSource \<Rightarrow> ('r, 't, 'w) processors \<Rightarrow> 'r list \<Rightarrow> 't list \<Rightarrow> 'w
     \<Rightarrow> ('t list, ('t, 'q) reason) promised \<times> 'r list \<times> 'w" where
  "processRequestsFrom src processors [] transforms w = (Resolved transforms, [], w)"
| "processRequestsFrom src processors (request # requests) transforms w =
     (case processors request of
        None \<Rightarrow> (Rejected NotAFunction, [], w)
      | Some processor \<Rightarrow>
          (case processor src request w of
             (Done additionalTransforms, w') \<Rightarrow>
               (case processRequestsFrom src processors requests
                       (case additionalTransforms of
                          None \<Rightarrow> transforms
                        | Some ts \<Rightarrow> transforms @ ts) w' of
                  (p, sent, w'') \<Rightarrow> (p, request # sent, w''))
           | (Fails e, w') \<Rightarrow> (Rejected (Reason e), [request], w')
           | (Hangs, w') \<Rightarrow> (Pending, [request], w')))"

definition processRequests ::
  "jsonapiSource \<Rightarrow> 'r list \<Rightarrow> ('r, 't, 'w) processors \<Rightarrow> 'w
     \<Rightarrow> ('t list, ('t, 'q) reason) promised \<times> 'r list \<times> 'w" where
  "processRequests src requests processors w = processRequestsFrom src processors requests [] w"

text \<open>
  \<^verbatim>\<open>getTransformRequests\<close>, \<^verbatim>\<open>getFetchRequests\<close> and the two processor tables come from
  modules that are not among the sources; they are parameters.
  \<open>sourceTransform\<close> is the method \<^verbatim>\<open>_transform\<close> and \<open>sourceFetch\<close> the method
  \<^verbatim>\<open>_fetch\<close>.
\<close>

definition sourceTransform ::
  "('t \<Rightarrow> 'r list) \<Rightarrow> ('r, 't, 'w) processors \<Rightarrow> jsonapiSource \<Rightarrow> 't \<Rightarrow> 'w
     \<Rightarrow> ('t list, ('t, 'q) reason) promised \<times> 'r list \<times> 'w" where
  "sourceTransform getTransformRequests TransformRequestProcessors src t w =
     (let requests = getTransformRequests t
      in if truthyNum (maxRequestsPerTransform src)
            \<and> int (length requests) > the (maxRequestsPerTransform src)
         then (Rejected (TransformNotAllowed (length requests) (the (maxRequestsPerTransform src)) t),
               [], w)
         else (case processRequests src requests TransformRequestProcessors w of
                 (Resolved transforms, sent, w') \<Rightarrow> (Resolved (t # transforms), sent, w')
               | (Rejected e, sent, w') \<Rightarrow> (Rejected e, sent, w')
               | (Pending, sent, w') \<Rightarrow> (Pending, sent, w')))"

definition sourceFetch ::
  "('q \<Rightarrow> 'r list) \<Rightarrow> ('r, 't, 'w) processors \<Rightarrow> jsonapiSource \<Rightarrow> 'q \<Rightarrow> 'w
     \<Rightarrow> ('t list, ('t, 'q) reason) promised \<times> 'r list \<times> 'w" where
  "sourceFetch getFetchRequests FetchRequestProcessors src query w =
     (let requests = getFetchRequests query
      in if truthyNum (maxRequestsPerFetch src)
            \<and> int (length requests) > the (maxRequestsPerFetch src)
         then (Rejected (FetchNotAllowed (length requests) (the (maxRequestsPerFetch src)) query),
               [], w)
         else processRequests src requests FetchRequestProcessors w)"

section \<open>Cache and cache integrity processor\<close>

text \<open>
  Modelled from the spec: the cache, its \<^verbatim>\<open>patch\<close> cycle and the cache integrity
  processor (modules \<^verbatim>\<open>orbit-common/cache\<close> and
  \<^verbatim>\<open>orbit-common/cache/operation-processors/cache-integrity-processor\<close>). Of these the
  sources hold the unit test of the processor only; the definitions below follow the
  spec's description of the data, of the three hooks and of the changes each operation
  makes to the reverse index, and the states the test expects.
\<close>

subsection \<open>Records, identifiers and operations\<close>

type_synonym identity = "string \<times> string"

text \<open>\<^verbatim>\<open>String.prototype.split\<close> at a separator character.\<close>

fun splitOn :: "char \<Rightarrow> string \<Rightarrow> string list" where
  "splitOn d [] = [[]]"
| "splitOn d (c # cs) =
     (if c = d then [] # splitOn d cs
      else (case splitOn d cs of
              [] \<Rightarrow> [[c]]
            | t # ts \<Rightarrow> (c # t) # ts))"

text \<open>
  Modelled from the spec: the identifiers of module \<^verbatim>\<open>orbit-common/lib/identifiers\<close>.
  The string form \<^verbatim>\<open>type:id\<close> of an identity is the key of a relationship; the way
  back reads the type before the first colon and the id after it.
\<close>

definition toIdentifier :: "identity \<Rightarrow> string" where
  "toIdentifier x = fst x @ '':'' @ snd x"

definition parseIdentifier :: "string \<Rightarrow> identity" where
  "parseIdentifier s =
     (case splitOn CHR '':'' s of
        t # i # rest \<Rightarrow> (t, i)
      | [t] \<Rightarrow> (t, [])
      | [] \<Rightarrow> ([], []))"

text \<open>
  Modelled from the spec: a record \<^verbatim>\<open>{ type, id, keys?, attributes?, relationships? }\<close>.
  The \<^verbatim>\<open>data\<close> member of a relationship is missing, or the identifier of a hasOne (or
  \<^verbatim>\<open>null\<close>), or the object that holds the identifiers of a hasMany as keys, here the
  keys in insertion order. The operations are the nine shapes of the spec.
\<close>

datatype reldata = NoData | HasOne "string option" | HasMany "string list"

record cacheRecord =
  rtype :: string
  rid :: string
  keys :: "(string \<times> string) list"
  attributes :: "(string \<times> jsval) list"
  relationships :: "(string \<times> reldata) list"

definition identityOf :: "cacheRecord \<Rightarrow> identity" where
  "identityOf r = (rtype r, rid r)"

datatype operation =
    AddRecord cacheRecord
  | ReplaceRecord cacheRecord
  | RemoveRecord identity
  | ReplaceKey identity string string
  | ReplaceAttribute identity string jsval
  | AddToHasMany identity string identity
  | RemoveFromHasMany identity string identity
  | ReplaceHasMany identity string "identity list"
  | ReplaceHasOne identity string "identity option"

subsection \<open>The reverse index\<close>

text \<open>
  Modelled from the spec: the reverse index of the processor,
  \<^verbatim>\<open>_rev[relatedType][relatedId][sourcePath] = true\<close>: two levels of objects, and under
  them the source paths as keys, kept in the order in which they were set. The source path
  of a hasOne slot is \<^verbatim>\<open>X.type/X.id/relationships/R/data\<close>, that of a member of a
  hasMany has the identifier of the member as one more segment. Setting a key that is
  there changes nothing; deleting a key leaves the object of the record, possibly empty;
  deleting \<^verbatim>\<open>_rev[type][id]\<close> takes the object of the record away.
\<close>

type_synonym revIndex = "string \<rightharpoonup> (string \<rightharpoonup> string list)"

definition hasOnePath :: "identity \<Rightarrow> string \<Rightarrow> string" where
  "hasOnePath x r = fst x @ ''/'' @ snd x @ ''/relationships/'' @ r @ ''/data''"

definition hasManyPath :: "identity \<Rightarrow> string \<Rightarrow> string \<Rightarrow> string" where
  "hasManyPath x r s = hasOnePath x r @ ''/'' @ s"

definition revLink :: "revIndex \<Rightarrow> identity \<Rightarrow> string list option" where
  "revLink rv y = (case rv (fst y) of None \<Rightarrow> None | Some m \<Rightarrow> m (snd y))"

definition revPaths :: "revIndex \<Rightarrow> identity \<Rightarrow> string list" where
  "revPaths rv y = (case revLink rv y of None \<Rightarrow> [] | Some ps \<Rightarrow> ps)"

definition setRevLink :: "revIndex \<Rightarrow> identity \<Rightarrow> string list \<Rightarrow> revIndex" where
  "setRevLink rv y ps =
     rv(fst y \<mapsto> (case rv (fst y) of None \<Rightarrow> Map.empty | Some m \<Rightarrow> m)(snd y \<mapsto> ps))"

definition addRevLink :: "revIndex \<Rightarrow> identity \<Rightarrow> string \<Rightarrow> revIndex" where
  "addRevLink rv y path =
     setRevLink rv y (if path \<in> set (revPaths rv y) then revPaths rv y else revPaths rv y @ [path])"

definition removeRevLink :: "revIndex \<Rightarrow> identity \<Rightarrow> string \<Rightarrow> revIndex" where
  "removeRevLink rv y path =
     (case revLink rv y of
        None \<Rightarrow> rv
      | Some ps \<Rightarrow> setRevLink rv y (removeAll path ps))"

definition deleteRevLinks :: "revIndex \<Rightarrow> identity \<Rightarrow> revIndex" where
  "deleteRevLinks rv y =
     (case rv (fst y) of
        None \<Rightarrow> rv
      | Some m \<Rightarrow> rv(fst y \<mapsto> m(snd y := None)))"

definition addRevLinks :: "revIndex \<Rightarrow> (identity \<times> string) list \<Rightarrow> revIndex" where
  "addRevLinks rv ps = foldl (\<lambda>rv' (y, path). addRevLink rv' y path) rv ps"

definition removeRevLinks :: "revIndex \<Rightarrow> (identity \<times> string) list \<Rightarrow> revIndex" where
  "removeRevLinks rv ps = foldl (\<lambda>rv' (y, path). removeRevLink rv' y path) rv ps"

text \<open>
  Modelled from the spec: the scan of the relationships of a record. For each pointer it
  gives the related record and the source path.
\<close>

fun relationshipPointers :: "identity \<Rightarrow> string \<times> reldata \<Rightarrow> (identity \<times> string) list" where
  "relationshipPointers x (r, NoData) = []"
| "relationshipPointers x (r, HasOne None) = []"
| "relationshipPointers x (r, HasOne (Some s)) = [(parseIdentifier s, hasOnePath x r)]"
| "relationshipPointers x (r, HasMany ss) = map (\<lambda>s. (parseIdentifier s, hasManyPath x r s)) ss"

definition recordPointers :: "cacheRecord \<Rightarrow> (identity \<times> string) list" where
  "recordPointers r = concat (map (relationshipPointers (identityOf r)) (relationships r))"

subsection \<open>The cache and the hooks of the processor\<close>

text \<open>
  Modelled from the spec: the state a \<^verbatim>\<open>patch\<close> works on, the records of the cache
  under their identity (\<^verbatim>\<open>[type][id]\<close>) and the index \<^verbatim>\<open>_rev\<close> of the processor, and
  the reading of a relationship of a record, as \<^verbatim>\<open>get(path)\<close> does it.
\<close>

record cacheState =
  records :: "identity \<rightharpoonup> cacheRecord"
  revIndex :: revIndex

definition getRelationship :: "(identity \<rightharpoonup> cacheRecord) \<Rightarrow> identity \<Rightarrow> string \<Rightarrow> reldata option" where
  "getRelationship rs x r =
     (case rs x of None \<Rightarrow> None | Some c \<Rightarrow> map_of (relationships c) r)"

text \<open>
  Modelled from the spec: the operation that undoes one back-pointer of a removed record.
  The path names the source record and the relationship; a path that ends at \<^verbatim>\<open>data\<close>
  is the slot of a hasOne, to be set to \<^verbatim>\<open>null\<close>, a longer one a member of a hasMany,
  out of which the removed record is to be taken.
\<close>

definition compensate :: "identity \<Rightarrow> string \<Rightarrow> operation option" where
  "compensate x path =
     (case splitOn CHR ''/'' path of
        [t, i, rels, r, d] \<Rightarrow> Some (ReplaceHasOne (t, i) r None)
      | t # i # rels # r # d # member # rest \<Rightarrow> Some (RemoveFromHasMany (t, i) r x)
      | _ \<Rightarrow> None)"

definition priorHasMany :: "(identity \<rightharpoonup> cacheRecord) \<Rightarrow> identity \<Rightarrow> string \<Rightarrow> string list" where
  "priorHasMany rs x r = (case getRelationship rs x r of Some (HasMany ss) \<Rightarrow> ss | _ \<Rightarrow> [])"

definition priorHasOne :: "(identity \<rightharpoonup> cacheRecord) \<Rightarrow> identity \<Rightarrow> string \<Rightarrow> string option" where
  "priorHasOne rs x r = (case getRelationship rs x r of Some (HasOne s) \<Rightarrow> s | _ \<Rightarrow> None)"

text \<open>
  Modelled from the spec: the hooks \<^verbatim>\<open>before\<close>, \<^verbatim>\<open>after\<close> and \<^verbatim>\<open>finally\<close> of the
  processor. Each hook returns the reverse index it leaves and the operations it emits.
  The changes to the index are those the spec lists operation by operation; removing a
  record also takes the paths of its own pointers out of the entries of the records it
  pointed to, which the unit test expects (the entry of earth is empty once human is
  removed). \<^verbatim>\<open>addToHasMany\<close> is taken on a relationship that is a hasMany, as the spec
  describes it. The unit test calls \<^verbatim>\<open>after\<close> and \<^verbatim>\<open>finally\<close> on records that have
  not been changed and finds the entries of prior members cleared; accordingly the
  \<^verbatim>\<open>after\<close> hook is asked before the primary operation touches the records, reads the
  prior state of a relationship there, and what it emits is applied after the primary
  operation. \<^verbatim>\<open>before\<close> emits nothing and changes nothing, and \<^verbatim>\<open>finally\<close> deletes the
  entry of a removed record.
\<close>

definition beforeHook :: "cacheState \<Rightarrow> operation \<Rightarrow> revIndex \<times> operation list" where
  "beforeHook st operation = (revIndex st, [])"

fun afterHook :: "cacheState \<Rightarrow> operation \<Rightarrow> revIndex \<times> operation list" where
  "afterHook st (AddRecord c) = (addRevLinks (revIndex st) (recordPointers c), [])"
| "afterHook st (ReplaceRecord c) =
     (let removed =
            (case records st (identityOf c) of
               None \<Rightarrow> []
             | Some old \<Rightarrow> filter (\<lambda>p. p \<notin> set (recordPointers c)) (recordPointers old))
      in (addRevLinks (removeRevLinks (revIndex st) removed) (recordPointers c), []))"
| "afterHook st (RemoveRecord x) =
     (let ops = List.map_filter (compensate x) (revPaths (revIndex st) x);
          own = (case records st x of None \<Rightarrow> [] | Some old \<Rightarrow> recordPointers old)
      in (removeRevLinks (revIndex st) own, ops))"
| "afterHook st (ReplaceKey x k v) = (revIndex st, [])"
| "afterHook st (ReplaceAttribute x a v) = (revIndex st, [])"
| "afterHook st (AddToHasMany x r y) =
     (addRevLink (revIndex st) y (hasManyPath x r (toIdentifier y)), [])"
| "afterHook st (RemoveFromHasMany x r y) =
     (removeRevLink (revIndex st) y (hasManyPath x r (toIdentifier y)), [])"
| "afterHook st (ReplaceHasMany x r ys) =
     (let prior = priorHasMany (records st) x r;
          missing = filter (\<lambda>s. s \<notin> set (map toIdentifier ys)) prior;
          added = filter (\<lambda>y. toIdentifier y \<notin> set prior) ys
      in (addRevLinks
            (removeRevLinks (revIndex st)
               (map (\<lambda>s. (parseIdentifier s, hasManyPath x r s)) missing))
            (map (\<lambda>y. (y, hasManyPath x r (toIdentifier y))) added), []))"
| "afterHook st (ReplaceHasOne x r y) =
     (let cleared =
            (case priorHasOne (records st) x r of
               None \<Rightarrow> revIndex st
             | Some s \<Rightarrow> removeRevLink (revIndex st) (parseIdentifier s) (hasOnePath x r))
      in (case y of
            None \<Rightarrow> (cleared, [])
          | Some y' \<Rightarrow> (addRevLink cleared y' (hasOnePath x r), [])))"

fun finallyHook :: "cacheState \<Rightarrow> operation \<Rightarrow> revIndex \<times> operation list" where
  "finallyHook st (RemoveRecord x) = (deleteRevLinks (revIndex st) x, [])"
| "finallyHook st operation = (revIndex st, [])"

text \<open>
  The three hooks in a row on records that are not changed in between, as the unit test
  calls them: the reverse index they leave and the operations each of them emitted.
\<close>

definition runHooks ::
  "cacheState \<Rightarrow> operation \<Rightarrow> revIndex \<times> operation list \<times> operation list \<times> operation list" where
  "runHooks st operation =
     (case beforeHook st operation of (rv1, bs) \<Rightarrow>
      case afterHook (st\<lparr>revIndex := rv1\<rparr>) operation of (rv2, as) \<Rightarrow>
      case finallyHook (st\<lparr>revIndex := rv2\<rparr>) operation of (rv3, fs) \<Rightarrow>
        (rv3, bs, as, fs))"

subsection \<open>Applying operations\<close>

text \<open>
  Modelled from the spec: writing the \<^verbatim>\<open>data\<close> of a relationship of a record that is in
  the cache.
\<close>

definition setRelationship ::
  "identity \<Rightarrow> string \<Rightarrow> reldata \<Rightarrow> (identity \<rightharpoonup> cacheRecord) \<Rightarrow> (identity \<rightharpoonup> cacheRecord)" where
  "setRelationship x r d rs =
     (case rs x of
        None \<Rightarrow> rs
      | Some c \<Rightarrow> rs(x \<mapsto> c\<lparr>relationships := AList.update r d (relationships c)\<rparr>))"

text \<open>
  Modelled from the spec: the primary effect of an operation on the records of the cache.
  An operation on a record that is not there changes nothing.
\<close>

fun applyOperation :: "(identity \<rightharpoonup> cacheRecord) \<Rightarrow> operation \<Rightarrow> (identity \<rightharpoonup> cacheRecord)" where
  "applyOperation rs (AddRecord c) = rs(identityOf c \<mapsto> c)"
| "applyOperation rs (ReplaceRecord c) = rs(identityOf c \<mapsto> c)"
| "applyOperation rs (RemoveRecord x) = rs(x := None)"
| "applyOperation rs (ReplaceKey x k v) =
     (case rs x of
        None \<Rightarrow> rs
      | Some c \<Rightarrow> rs(x \<mapsto> c\<lparr>keys := AList.update k v (keys c)\<rparr>))"
| "applyOperation rs (ReplaceAttribute x a v) =
     (case rs x of
        None \<Rightarrow> rs
      | Some c \<Rightarrow> rs(x \<mapsto> c\<lparr>attributes := AList.update a v (attributes c)\<rparr>))"
| "applyOperation rs (AddToHasMany x r y) =
     (let prior = priorHasMany rs x r
      in setRelationship x r
           (HasMany (if toIdentifier y \<in> set prior then prior else prior @ [toIdentifier y])) rs)"
| "applyOperation rs (RemoveFromHasMany x r y) =
     (case getRelationship rs x r of
        Some (HasMany ss) \<Rightarrow> setRelationship x r (HasMany (removeAll (toIdentifier y) ss)) rs
      | _ \<Rightarrow> rs)"
| "applyOperation rs (ReplaceHasMany x r ys) =
     setRelationship x r (HasMany (remdups (map toIdentifier ys))) rs"
| "applyOperation rs (ReplaceHasOne x r y) =
     setRelationship x r (HasOne (map_option toIdentifier y)) rs"

text \<open>
  Modelled from the spec: \<^verbatim>\<open>patch\<close> of the cache. One operation goes through the cycle:
  the operations of \<^verbatim>\<open>before\<close>, the primary operation, the operations of \<^verbatim>\<open>after\<close>,
  the operations of \<^verbatim>\<open>finally\<close>. Emitted operations go through the same cycle, so the
  function takes the depth it may descend as fuel and answers \<open>None\<close> when that is
  used up.
\<close>

fun patchOp :: "nat \<Rightarrow> cacheState \<Rightarrow> operation \<Rightarrow> cacheState option" where
  "patchOp 0 st operation = None"
| "patchOp (Suc n) st operation =
     (case beforeHook st operation of (rv1, bs) \<Rightarrow>
      case foldl (\<lambda>s o'. Option.bind s (\<lambda>s'. patchOp n s' o')) (Some (st\<lparr>revIndex := rv1\<rparr>)) bs of
        None \<Rightarrow> None
      | Some st1 \<Rightarrow>
          (case afterHook st1 operation of (rv2, as) \<Rightarrow>
           case foldl (\<lambda>s o'. Option.bind s (\<lambda>s'. patchOp n s' o'))
                  (Some \<lparr> records = applyOperation (records st1) operation, revIndex = rv2 \<rparr>) as of
             None \<Rightarrow> None
           | Some st2 \<Rightarrow>
               (case finallyHook st2 operation of (rv3, fs) \<Rightarrow>
                foldl (\<lambda>s o'. Option.bind s (\<lambda>s'. patchOp n s' o'))
                  (Some (st2\<lparr>revIndex := rv3\<rparr>)) fs)))"

definition patch :: "nat \<Rightarrow> cacheState \<Rightarrow> operation list \<Rightarrow> cacheState option" where
  "patch n st ops = foldl (\<lambda>s o'. Option.bind s (\<lambda>s'. patchOp n s' o')) (Some st) ops"

text \<open>
  Modelled from the spec: \<^verbatim>\<open>reset(data)\<close> of the cache replaces the records and rebuilds
  the reverse index from scratch, record by record in the order of the data.
\<close>

definition resetCache :: "cacheRecord list \<Rightarrow> cacheState" where
  "resetCache data =
     \<lparr> records = map_of (map (\<lambda>c. (identityOf c, c)) (rev data)),
       revIndex = foldl (\<lambda>rv c. addRevLinks rv (recordPointers c)) Map.empty data \<rparr>"

text \<open>
  An index is well formed when every path kept in it has the five segments of a source
  path at least.
\<close>

definition wellFormed :: "revIndex \<Rightarrow> bool" where
  "wellFormed rv = (\<forall>y ps. revLink rv y = Some ps \<longrightarrow> (\<forall>p \<in> set ps. 5 \<le> length (splitOn CHR ''/'' p)))"

section \<open>Vocabulary and examples for the emit disciplines\<close>

text \<open>
  For \<^verbatim>\<open>resolve\<close>: an outcome that lets the iteration pass on to the next listener, and
  the value with which an outcome ends the iteration successfully.
\<close>

fun passedOver :: "outcome \<Rightarrow> bool" where
  "passedOver (Returns Falsy) = True"
| "passedOver (Returns (Awaitable (Rejects e))) = True"
| "passedOver (Returns (Awaitable (Fulfils v))) = False"
| "passedOver (Returns (Awaitable Never)) = False"
| "passedOver (Throws e) = False"
| "passedOver (Returns (NotThenable v)) = False"

fun wins :: "outcome \<Rightarrow> jsval option" where
  "wins (Returns (Awaitable (Fulfils v))) = Some v"
| "wins (Returns (Awaitable (Rejects e))) = None"
| "wins (Returns (Awaitable Never)) = None"
| "wins (Returns Falsy) = None"
| "wins (Throws e) = None"
| "wins (Returns (NotThenable v)) = None"

text \<open>
  For \<^verbatim>\<open>settle\<close>: the errors thrown in a run of outcomes, which are written to the
  console, and the outcomes that the code of \<^verbatim>\<open>settle\<close> handles without raising an
  exception of its own: every one but a thrown \<^verbatim>\<open>undefined\<close> or \<^verbatim>\<open>null\<close> and a returned
  truthy value without \<^verbatim>\<open>then\<close>.
\<close>

fun thrown :: "outcome list \<Rightarrow> jsval list" where
  "thrown [] = []"
| "thrown (Throws e # outs) = e # thrown outs"
| "thrown (Returns r # outs) = thrown outs"

fun ordinary :: "outcome \<Rightarrow> bool" where
  "ordinary (Throws e) = (\<not> nullish e)"
| "ordinary (Returns Falsy) = True"
| "ordinary (Returns (Awaitable f)) = True"
| "ordinary (Returns (NotThenable v)) = False"

text \<open>
  The ordinary outcomes after which \<^verbatim>\<open>settleEach\<close> calls itself at once, without waiting
  for an awaitable.
\<close>

fun immediate :: "outcome \<Rightarrow> bool" where
  "immediate (Throws e) = (\<not> nullish e)"
| "immediate (Returns Falsy) = True"
| "immediate (Returns (Awaitable f)) = False"
| "immediate (Returns (NotThenable v)) = False"

text \<open>
  The ways a call of \<^verbatim>\<open>settleEach\<close> ends when nothing has gone wrong: it has returned
  \<^verbatim>\<open>undefined\<close>, or a promise that fulfils or stays pending.
\<close>

fun quiet :: "step \<Rightarrow> bool" where
  "quiet Returned = True"
| "quiet (Chained (Resolved u)) = True"
| "quiet (Chained Pending) = True"
| "quiet (Chained (Rejected e)) = False"
| "quiet (Raised e) = False"

subsection \<open>Example listeners\<close>

text \<open>
  Callbacks for the ways a listener can behave, and a world that counts the calls made.
\<close>

datatype exampleCallback =
  Silent | FulfilFalse | FulfilHello | Reject | Throw | Hang | ThrowUndefined | ReturnTrue

fun exampleOutcome :: "exampleCallback \<Rightarrow> outcome" where
  "exampleOutcome Silent = Returns Falsy"
| "exampleOutcome FulfilFalse = Returns (Awaitable (Fulfils (Bool False)))"
| "exampleOutcome FulfilHello = Returns (Awaitable (Fulfils (Str ''hello'')))"
| "exampleOutcome Reject = Returns (Awaitable (Rejects (Str ''no'')))"
| "exampleOutcome Throw = Throws (Str ''boom'')"
| "exampleOutcome Hang = Returns (Awaitable Never)"
| "exampleOutcome ThrowUndefined = Throws Undefined"
| "exampleOutcome ReturnTrue = Returns (NotThenable (Bool True))"

definition exampleCall :: "(exampleCallback \<times> unit binding, nat) caller" where
  "exampleCall l args w = (exampleOutcome (fst l), Suc w)"

definition exampleSource :: "exampleCallback list \<Rightarrow> (exampleCallback, unit) evented" where
  "exampleSource cbs = foldl (\<lambda>object cb. on object ''greeting'' cb None) newEvented cbs"

definition exampleTwoEvents :: "(exampleCallback, unit) evented" where
  "exampleTwoEvents = on (exampleSource [Silent, Reject, Silent]) ''farewell'' Hang None"

section \<open>Example action\<close>

text \<open>An action whose function throws on its first run and returns a value afterwards.\<close>

definition failsOnce :: "nat \<Rightarrow> attempt" where
  "failsOnce n = (if n = 0 then Raises (Str ''boom'') else Gives (Plain (Str ''done'')))"

definition exampleAction :: action where
  "exampleAction = newAction (Num 1) Undefined failsOnce"

section \<open>Vocabulary and examples for the JSON:API source\<close>

text \<open>The segment an optional string contributes to an address: itself if it is truthy.\<close>

definition segment :: "string option \<Rightarrow> string list" where
  "segment s = (if truthyStr s then [the s] else [])"

text \<open>
  An example serializer in the manner of the JSON:API serializer: the type in the plural,
  the id and the relationship name as they are.
\<close>

definition exampleSerializer :: serializer where
  "exampleSerializer =
     \<lparr> resourceType = (\<lambda>type. type @ ''s''),
       resourceId = (\<lambda>type i. Some i),
       resourceRelationship = (\<lambda>type relationship. relationship) \<rparr>"

definition exampleOptions :: jsonapiOptions where
  "exampleOptions =
     \<lparr> optName = None, optNamespace = None, optHost = None,
       optMaxRequestsPerFetch = None, optMaxRequestsPerTransform = None,
       optSerializer = exampleSerializer \<rparr>"

definition plainSource :: jsonapiSource where
  "plainSource = newJSONAPISource exampleOptions"

definition hostedSource :: jsonapiSource where
  "hostedSource =
     newJSONAPISource (exampleOptions\<lparr> optHost := Some ''http://api.example.com'',
                                         optNamespace := Some ''v1'' \<rparr>)"

definition cappedSource :: "int \<Rightarrow> jsonapiSource" where
  "cappedSource n =
     newJSONAPISource (exampleOptions\<lparr> optMaxRequestsPerFetch := Some n,
                                         optMaxRequestsPerTransform := Some n \<rparr>)"

text \<open>
  Example transforms and queries are the lists of their requests, a request is named by
  its operation, and every processor answers with no further transforms, the world
  counting the requests sent.
\<close>

definition exampleRequests :: "string list \<Rightarrow> string list" where
  "exampleRequests t = t"

definition exampleProcessor :: "jsonapiSource \<Rightarrow> string \<Rightarrow> nat \<Rightarrow> string list processed \<times> nat" where
  "exampleProcessor src request w = (Done None, Suc w)"

definition exampleProcessors :: "(string, string list, nat) processors" where
  "exampleProcessors request = Some exampleProcessor"

section \<open>Vocabulary and examples for the cache integrity processor\<close>

text \<open>
  The two kinds of operation that undo a back-pointer to the record \<open>x\<close>: taking
  \<open>x\<close> out of a hasMany, and setting a hasOne to \<^verbatim>\<open>null\<close>.
\<close>

fun isCompensation :: "identity \<Rightarrow> operation \<Rightarrow> bool" where
  "isCompensation x (RemoveFromHasMany s r y) = (y = x)"
| "isCompensation x (ReplaceHasOne s r None) = True"
| "isCompensation x operation = False"

text \<open>The records of the unit test of the processor.\<close>

definition mkRecord :: "string \<Rightarrow> string \<Rightarrow> (string \<times> reldata) list \<Rightarrow> cacheRecord" where
  "mkRecord t i rs = \<lparr> rtype = t, rid = i, keys = [], attributes = [], relationships = rs \<rparr>"

definition saturnWithMoons :: cacheRecord where
  "saturnWithMoons = mkRecord ''planet'' ''saturn'' [(''moons'', HasMany [''moon:titan''])]"

definition jupiterWithMoons :: cacheRecord where
  "jupiterWithMoons = mkRecord ''planet'' ''jupiter'' [(''moons'', HasMany [''moon:europa''])]"

definition titan :: cacheRecord where
  "titan = mkRecord ''moon'' ''titan'' [(''planet'', HasOne (Some ''planet:saturn''))]"

definition europa :: cacheRecord where
  "europa = mkRecord ''moon'' ''europa'' [(''planet'', HasOne (Some ''planet:jupiter''))]"

definition moonsCache :: cacheState where
  "moonsCache = resetCache [saturnWithMoons, jupiterWithMoons, titan, europa]"

definition saturnNext :: cacheRecord where
  "saturnNext = mkRecord ''planet'' ''saturn'' [(''next'', HasOne (Some ''planet:jupiter''))]"

definition jupiterPrevious :: cacheRecord where
  "jupiterPrevious = mkRecord ''planet'' ''jupiter'' [(''previous'', HasOne (Some ''planet:saturn''))]"

definition earthAlone :: cacheRecord where
  "earthAlone = mkRecord ''planet'' ''earth'' []"

definition planetsCache :: cacheState where
  "planetsCache = resetCache [saturnNext, jupiterPrevious, earthAlone]"

definition earth :: cacheRecord where
  "earth = mkRecord ''planet'' ''earth'' [(''inhabitants'', HasMany [''inhabitant:human''])]"

definition human :: cacheRecord where
  "human = mkRecord ''inhabitant'' ''human'' [(''planets'', HasMany [''planet:earth''])]"

definition inhabitedCache :: cacheState where
  "inhabitedCache = resetCache [earth, human]"

definition jupiterNoMoons :: cacheRecord where
  "jupiterNoMoons = mkRecord ''planet'' ''jupiter'' [(''moons'', NoData)]"

definition humanAlone :: cacheRecord where
  "humanAlone = mkRecord ''inhabitant'' ''human'' []"

definition saturnTitanCache :: cacheState where
  "saturnTitanCache = resetCache [saturnWithMoons, jupiterNoMoons, titan]"

definition unlinkedCache :: cacheState where
  "unlinkedCache = resetCache [earthAlone, humanAlone]"

section \<open>Properties of Evented\<close>

subsection \<open>Event names and listener tables\<close>

lemma splitSpaces_single: "\<forall>c \<in> set s. \<not> isSpace c \<Longrightarrow> splitSpaces s = [s]"
  by (induction s) auto

lemma offEvent_None_lookup:
  "eventedNotifiers (offEvent None b object e) e' =
     (if e' = e then None else eventedNotifiers object e')"
  by (auto simp: offEvent_def notifierForEvent_def removeNotifierForEvent_def split: option.splits)

lemma off_None_lookup:
  "eventedNotifiers (foldl (offEvent None b) object ns) e =
     (if e \<in> set ns then None else eventedNotifiers object e)"
  by (induction ns arbitrary: object) (auto simp: offEvent_None_lookup)

lemma listeners_none:
  "\<forall>e \<in> set ns. eventedNotifiers object e = None \<Longrightarrow> foldl (listenersStep object) acc ns = acc"
  by (induction ns arbitrary: acc) (auto simp: listenersStep_def notifierForEvent_def)

lemma listeners_off_all: "listeners (off object eventNames None b) eventNames = []"
  unfolding listeners_def off_def
  by (rule listeners_none) (simp add: off_None_lookup)

lemma listeners_single:
  "\<forall>c \<in> set e. \<not> isSpace c \<Longrightarrow>
     listeners object e = (case eventedNotifiers object e of None \<Rightarrow> [] | Some n \<Rightarrow> n)"
  by (simp add: listeners_def splitSpaces_single listenersStep_def notifierForEvent_def
      split: option.splits)

lemma off_callback_single:
  "\<forall>c \<in> set e. \<not> isSpace c \<Longrightarrow>
     eventedNotifiers (off object e (Some cb) b) =
       (case eventedNotifiers object e of
          None \<Rightarrow> eventedNotifiers object
        | Some n \<Rightarrow> (eventedNotifiers object)(e \<mapsto> remove1 (cb, bindingOf b) n))"
  by (simp add: off_def splitSpaces_single offEvent_def notifierForEvent_def removeListener_def
      split: option.splits)

lemma on_single:
  "\<forall>c \<in> set e. \<not> isSpace c \<Longrightarrow>
     listeners (on object e cb b) e = listeners object e @ [(cb, bindingOf b)]"
  by (simp add: listeners_single on_def splitSpaces_single onEvent_def notifierForEvent_def
      addListener_def split: option.splits)

lemma greeting_no_space: "\<forall>c \<in> set ''greeting''. \<not> isSpace c"
  by (simp add: isSpace_def)

lemma farewell_no_space: "\<forall>c \<in> set ''farewell''. \<not> isSpace c"
  by (simp add: isSpace_def)

lemma exampleSource_snoc:
  "exampleSource (cbs @ [cb]) = on (exampleSource cbs) ''greeting'' cb None"
  by (simp add: exampleSource_def)

lemma listeners_exampleSource:
  "listeners (exampleSource cbs) ''greeting'' = map (\<lambda>cb. (cb, This)) cbs"
proof (induction cbs rule: rev_induct)
  case Nil
  show ?case
    by (simp add: exampleSource_def listeners_single[OF greeting_no_space] newEvented_def)
next
  case (snoc cb cbs)
  then show ?case
    by (simp add: exampleSource_snoc on_single[OF greeting_no_space] bindingOf_def)
qed

lemma outcomes_exampleCall:
  "outcomes exampleCall ls args w = map (\<lambda>l. exampleOutcome (fst l)) ls"
  by (induction ls arbitrary: w) (simp_all add: exampleCall_def)

subsection \<open>The iterations\<close>

lemma length_outcomes: "length (outcomes call ls args w) = length ls"
  by (induction ls arbitrary: w) (auto split: prod.splits)





lemma resolveEach_none:
  "\<forall>out \<in> set (outcomes call ls args w). passedOver out \<Longrightarrow>
     fst (resolveEach call ex ls args w) = Rejected Undefined \<and>
     fst (snd (resolveEach call ex ls args w)) = ls"
proof (induction ls arbitrary: w ex)
  case Nil
  then show ?case by simp
next
  case (Cons l ls)
  obtain out w' where c: "call l args w = (out, w')" by (cases "call l args w")
  from Cons.prems c have s: "passedOver out"
    and rest: "\<forall>o' \<in> set (outcomes call ls args w'). passedOver o'"
    by auto
  from Cons.IH[OF rest, of ex] Cons.IH[OF rest, of False] s c show ?case
    by (cases out rule: passedOver.cases) (auto split: prod.splits)
qed

lemma resolveEach_winner:
  "i < length ls \<Longrightarrow> \<forall>j<i. passedOver (outcomes call ls args w ! j) \<Longrightarrow>
   wins (outcomes call ls args w ! i) = Some v \<Longrightarrow>
     fst (resolveEach call ex ls args w) = Resolved v \<and>
     fst (snd (resolveEach call ex ls args w)) = take (Suc i) ls"
proof (induction ls arbitrary: w i ex)
  case Nil
  then show ?case by simp
next
  case (Cons l ls)
  obtain out w' where c: "call l args w = (out, w')" by (cases "call l args w")
  show ?case
  proof (cases i)
    case 0
    with Cons.prems c have "wins out = Some v" by simp
    with c show ?thesis using 0
      by (cases out rule: wins.cases) auto
  next
    case (Suc k)
    with Cons.prems c have s: "passedOver out" by fastforce
    from Suc Cons.prems c have k: "k < length ls" and
      pre: "\<forall>j<k. passedOver (outcomes call ls args w' ! j)" and
      f: "wins (outcomes call ls args w' ! k) = Some v"
      by (auto simp: nth_Cons')
    from Cons.IH[OF k pre f, of ex] Cons.IH[OF k pre f, of False] s c Suc show ?thesis
      by (cases out rule: passedOver.cases) (auto split: prod.splits)
  qed
qed

subsection \<open>series\<close>



subsection \<open>resolve\<close>

text \<open>
  Claim C3, as amended. \<^verbatim>\<open>resolve\<close> calls the listeners one after the other. A listener
  that returns a falsy value, or an awaitable that rejects, is passed over. The first
  listener that returns an awaitable which fulfils wins: the promise of \<^verbatim>\<open>resolve\<close>
  resolves with the value of that awaitable, whether the value is truthy or not, and no
  later listener is called. If every listener is passed over, and so also when there is
  no listener, the promise rejects.
\<close>

theorem resolve_first_fulfilled_wins:
  "let ls = listeners object eventNames;
       outs = outcomes call ls args w;
       r = resolve call object eventNames args w
   in (i < length ls \<and> (\<forall>j<i. passedOver (outs ! j)) \<and> wins (outs ! i) = Some v \<longrightarrow>
         fst r = Resolved v \<and> fst (snd r) = take (Suc i) ls) \<and>
      ((\<forall>out \<in> set outs. passedOver out) \<longrightarrow> fst r = Rejected Undefined \<and> fst (snd r) = ls)"
  unfolding Let_def resolve_def
  using resolveEach_winner[of i "listeners object eventNames" call args w v True]
    resolveEach_none[of call "listeners object eventNames" args w True]
  by auto

theorem resolve_first_fulfilled_wins_witness:
  "fst (resolve exampleCall (exampleSource [Reject, FulfilHello, FulfilFalse]) ''greeting'' [] 0)
     = Resolved (Str ''hello'') \<and>
   fst (snd (resolve exampleCall (exampleSource [Reject, FulfilHello, FulfilFalse]) ''greeting'' [] 0))
     = [(Reject, This), (FulfilHello, This)] \<and>
   fst (resolve exampleCall (exampleSource [Silent, Reject]) ''greeting'' [] 0)
     = Rejected Undefined \<and>
   fst (snd (resolve exampleCall (exampleSource [Silent, Reject]) ''greeting'' [] 0))
     = [(Silent, This), (Reject, This)] \<and>
   fst (resolve exampleCall (exampleSource []) ''greeting'' [] 0) = Rejected Undefined"
  using
    resolve_first_fulfilled_wins[where object = "exampleSource [Reject, FulfilHello, FulfilFalse]"
      and eventNames = "''greeting''" and call = exampleCall and args = "[]" and w = 0
      and i = 1 and v = "Str ''hello''"]
    resolve_first_fulfilled_wins[where object = "exampleSource [Silent, Reject]"
      and eventNames = "''greeting''" and call = exampleCall and args = "[]" and w = 0
      and i = 1 and v = "Str ''hello''"]
    resolve_first_fulfilled_wins[where object = "exampleSource []"
      and eventNames = "''greeting''" and call = exampleCall and args = "[]" and w = 0
      and i = 1 and v = "Str ''hello''"]
  by (simp add: Let_def listeners_exampleSource outcomes_exampleCall)

text \<open>
  Claim C3 as it was stated fails: the first of these two listeners returns an awaitable
  that fulfils with \<^verbatim>\<open>false\<close>, the second one that fulfils with a truthy string. The
  promise resolves with \<^verbatim>\<open>false\<close> and the second listener is never called.
\<close>

theorem resolve_truthy_value_counterexample:
  "outcomes exampleCall (listeners (exampleSource [FulfilFalse, FulfilHello]) ''greeting'') [] 0
     = [Returns (Awaitable (Fulfils (Bool False))), Returns (Awaitable (Fulfils (Str ''hello'')))] \<and>
   \<not> truthy (Bool False) \<and> truthy (Str ''hello'') \<and>
   fst (resolve exampleCall (exampleSource [FulfilFalse, FulfilHello]) ''greeting'' [] 0)
     = Resolved (Bool False) \<and>
   fst (snd (resolve exampleCall (exampleSource [FulfilFalse, FulfilHello]) ''greeting'' [] 0))
     = [(FulfilFalse, This)]"
  by (simp add: resolve_def listeners_exampleSource outcomes_exampleCall exampleCall_def)

subsection \<open>settle\<close>

text \<open>One call of \<^verbatim>\<open>settleEach\<close>, on the empty array and on an array with a first listener.\<close>

lemma settleEach_Nil:
  "waiting s = [] \<Longrightarrow> settleEach call args s = (Returned, s\<lparr>resolved := True\<rparr>)"
  by (subst settleEach.simps) simp

lemma settleEach_Cons:
  "waiting s = l # ls \<Longrightarrow> call l args (world s) = (out, w') \<Longrightarrow>
   settleEach call args s =
     (let s' = s\<lparr>waiting := ls, invoked := invoked s @ [l], world := w'\<rparr> in
      case out of
        Throws e \<Rightarrow>
          if nullish e then (Raised TypeError, s')
          else (case settleEach call args (s'\<lparr>console := console s' @ [e]\<rparr>) of
                  (r, s'') \<Rightarrow> (passed r, s''))
      | Returns Falsy \<Rightarrow>
          (case settleEach call args s' of (r, s'') \<Rightarrow> (passed r, s''))
      | Returns (NotThenable v) \<Rightarrow> (Raised TypeError, s')
      | Returns (Awaitable Never) \<Rightarrow> (Chained Pending, s')
      | Returns (Awaitable (Rejects e)) \<Rightarrow>
          (case settleEach call args s' of (r, s'') \<Rightarrow> (Chained (handled r), s''))
      | Returns (Awaitable (Fulfils v)) \<Rightarrow>
          (case settleEach call args s' of (r, s'') \<Rightarrow>
             (case handled r of
                Rejected e \<Rightarrow>
                  (case settleEach call args s'' of
                     (r', s''') \<Rightarrow> (Chained (handled r'), s'''))
              | Resolved u \<Rightarrow> (Chained (Resolved u), s'')
              | Pending \<Rightarrow> (Chained Pending, s''))))"
  by (subst settleEach.simps) simp

text \<open>
  Over listeners with ordinary outcomes no call of \<^verbatim>\<open>settleEach\<close> raises and no promise
  in the chain rejects, so the callback of \<^verbatim>\<open>catch\<close> only ever runs for an awaitable
  that has rejected.
\<close>

lemma settleEach_ordinary_quiet:
  "waiting s = ls \<Longrightarrow> \<forall>out \<in> set (outcomes call ls args (world s)). ordinary out \<Longrightarrow>
     quiet (fst (settleEach call args s))"
proof (induction ls arbitrary: s)
  case Nil
  then show ?case by (simp add: settleEach_Nil)
next
  case (Cons l ls)
  obtain out w' where c: "call l args (world s) = (out, w')" by (cases "call l args (world s)")
  define s' where "s' = s\<lparr>waiting := ls, invoked := invoked s @ [l], world := w'\<rparr>"
  from Cons.prems c have o: "ordinary out"
    and rest: "\<forall>o' \<in> set (outcomes call ls args w'). ordinary o'"
    by auto
  have ih: "quiet (fst (settleEach call args t))" if "waiting t = ls" "world t = w'" for t
    using Cons.IH[of t] that rest by simp
  note eq = settleEach_Cons[of s l ls call args out w', OF Cons.prems(1) c, folded s'_def]
  have w: "waiting s' = ls" "world s' = w'"
    by (simp_all add: s'_def)
  show ?case
  proof (cases out rule: ordinary.cases)
    case (1 e)
    with o ih[of "s'\<lparr>console := console s' @ [e]\<rparr>"] w show ?thesis
      by (cases "settleEach call args (s'\<lparr>console := console s' @ [e]\<rparr>)";
          cases "fst (settleEach call args (s'\<lparr>console := console s' @ [e]\<rparr>))" rule: quiet.cases)
         (auto simp: eq Let_def)
  next
    case 2
    with o ih[of s'] w show ?thesis
      by (cases "settleEach call args s'"; cases "fst (settleEach call args s')" rule: quiet.cases)
         (auto simp: eq Let_def)
  next
    case (3 f)
    with o ih[of s'] w show ?thesis
      by (cases "settleEach call args s'"; cases "fst (settleEach call args s')" rule: quiet.cases;
          cases f)
         (auto simp: eq Let_def)
  next
    case (4 v)
    with o show ?thesis by simp
  qed
qed

lemma settleEach_ordinary_all:
  "waiting s = ls \<Longrightarrow>
   \<forall>out \<in> set (outcomes call ls args (world s)). ordinary out \<and> settles out \<Longrightarrow>
     quiet (fst (settleEach call args s)) \<and>
     resolved (snd (settleEach call args s)) \<and>
     invoked (snd (settleEach call args s)) = invoked s @ ls \<and>
     console (snd (settleEach call args s)) = console s @ thrown (outcomes call ls args (world s))"
proof (induction ls arbitrary: s)
  case Nil
  then show ?case by (simp add: settleEach_Nil)
next
  case (Cons l ls)
  obtain out w' where c: "call l args (world s) = (out, w')" by (cases "call l args (world s)")
  define s' where "s' = s\<lparr>waiting := ls, invoked := invoked s @ [l], world := w'\<rparr>"
  from Cons.prems c have o: "ordinary out" "settles out"
    and rest: "\<forall>o' \<in> set (outcomes call ls args w'). ordinary o' \<and> settles o'"
    by auto
  have ih: "quiet (fst (settleEach call args t)) \<and>
     resolved (snd (settleEach call args t)) \<and>
     invoked (snd (settleEach call args t)) = invoked t @ ls \<and>
     console (snd (settleEach call args t)) = console t @ thrown (outcomes call ls args w')"
    if "waiting t = ls" "world t = w'" for t
    using Cons.IH[of t] that rest by simp
  note eq = settleEach_Cons[of s l ls call args out w', OF Cons.prems(1) c, folded s'_def]
  have w: "waiting s' = ls" "world s' = w'" "invoked s' = invoked s @ [l]" "console s' = console s"
    by (simp_all add: s'_def)
  show ?case
  proof (cases out rule: ordinary.cases)
    case (1 e)
    with o ih[of "s'\<lparr>console := console s' @ [e]\<rparr>"] w c Cons.prems(1) show ?thesis
      by (cases "settleEach call args (s'\<lparr>console := console s' @ [e]\<rparr>)";
          cases "fst (settleEach call args (s'\<lparr>console := console s' @ [e]\<rparr>))" rule: quiet.cases)
         (auto simp: eq Let_def)
  next
    case 2
    with o ih[of s'] w c Cons.prems(1) show ?thesis
      by (cases "settleEach call args s'"; cases "fst (settleEach call args s')" rule: quiet.cases)
         (auto simp: eq Let_def)
  next
    case (3 f)
    with o ih[of s'] w c Cons.prems(1) show ?thesis
      by (cases "settleEach call args s'"; cases "fst (settleEach call args s')" rule: quiet.cases;
          cases f)
         (auto simp: eq Let_def)
  next
    case (4 v)
    with o show ?thesis by simp
  qed
qed

lemma settleEach_ordinary_waits:
  "waiting s = ls \<Longrightarrow> i < length ls \<Longrightarrow>
   \<forall>j<i. ordinary (outcomes call ls args (world s) ! j) \<and>
          settles (outcomes call ls args (world s) ! j) \<Longrightarrow>
   outcomes call ls args (world s) ! i = Returns (Awaitable Never) \<Longrightarrow>
     quiet (fst (settleEach call args s)) \<and>
     resolved (snd (settleEach call args s)) = resolved s \<and>
     invoked (snd (settleEach call args s)) = invoked s @ take (Suc i) ls"
proof (induction ls arbitrary: s i)
  case Nil
  then show ?case by simp
next
  case (Cons l ls)
  obtain out w' where c: "call l args (world s) = (out, w')" by (cases "call l args (world s)")
  define s' where "s' = s\<lparr>waiting := ls, invoked := invoked s @ [l], world := w'\<rparr>"
  note eq = settleEach_Cons[of s l ls call args out w', OF Cons.prems(1) c, folded s'_def]
  have w: "waiting s' = ls" "world s' = w'" "invoked s' = invoked s @ [l]"
    "resolved s' = resolved s"
    by (simp_all add: s'_def)
  show ?case
  proof (cases i)
    case 0
    with Cons.prems c have "out = Returns (Awaitable Never)" by simp
    with 0 w show ?thesis by (simp add: eq Let_def)
  next
    case (Suc k)
    with Cons.prems c have o: "ordinary out" "settles out" by fastforce+
    from Suc Cons.prems c have k: "k < length ls" and
      pre: "\<forall>j<k. ordinary (outcomes call ls args w' ! j) \<and> settles (outcomes call ls args w' ! j)" and
      f: "outcomes call ls args w' ! k = Returns (Awaitable Never)"
      by (auto simp: nth_Cons')
    have ih: "quiet (fst (settleEach call args t)) \<and>
       resolved (snd (settleEach call args t)) = resolved t \<and>
       invoked (snd (settleEach call args t)) = invoked t @ take (Suc k) ls"
      if "waiting t = ls" "world t = w'" for t
      using Cons.IH[of t k] that k pre f by simp
    show ?thesis
    proof (cases out rule: ordinary.cases)
      case (1 e)
      with o ih[of "s'\<lparr>console := console s' @ [e]\<rparr>"] w Suc show ?thesis
        by (cases "settleEach call args (s'\<lparr>console := console s' @ [e]\<rparr>)";
            cases "fst (settleEach call args (s'\<lparr>console := console s' @ [e]\<rparr>))" rule: quiet.cases)
           (auto simp: eq Let_def)
    next
      case 2
      with o ih[of s'] w Suc show ?thesis
        by (cases "settleEach call args s'"; cases "fst (settleEach call args s')" rule: quiet.cases)
           (auto simp: eq Let_def)
    next
      case (3 f)
      with o ih[of s'] w Suc show ?thesis
        by (cases "settleEach call args s'"; cases "fst (settleEach call args s')" rule: quiet.cases;
            cases f)
           (auto simp: eq Let_def)
    next
      case (4 v)
      with o show ?thesis by simp
    qed
  qed
qed

lemma executed_quiet: "quiet r \<Longrightarrow> executed r b \<noteq> Rejected e"
  by (cases r rule: quiet.cases; cases b) auto

lemma executed_waiting: "quiet r \<Longrightarrow> executed r False = Pending"
  by (cases r rule: quiet.cases) auto

text \<open>
  What \<^verbatim>\<open>settle\<close> does for ordinary listeners, those that return a falsy value or an
  awaitable, or throw anything but \<^verbatim>\<open>undefined\<close> and \<^verbatim>\<open>null\<close>. The promise never rejects.
  Once every awaitable has settled the promise has resolved, every listener has been
  called, in order, whether or not listeners before it threw or had their awaitable
  reject, and what the listeners threw is on the console. While the awaitable of a
  listener stays pending the promise stays pending and the listeners after that one have
  not been called.
\<close>

lemma settle_ordinary_listeners:
  "let ls = listeners object eventNames;
       outs = outcomes call ls args w;
       r = settle call object eventNames args w
   in ((\<forall>out \<in> set outs. ordinary out) \<longrightarrow> fst r \<noteq> Rejected e) \<and>
      ((\<forall>out \<in> set outs. ordinary out \<and> settles out) \<longrightarrow>
         fst r = Resolved Undefined \<and> fst (snd r) = ls \<and> snd (snd (snd r)) = thrown outs) \<and>
      (i < length ls \<and> (\<forall>j<i. ordinary (outs ! j) \<and> settles (outs ! j)) \<and>
       outs ! i = Returns (Awaitable Never) \<longrightarrow>
         fst r = Pending \<and> fst (snd r) = take (Suc i) ls)"
proof -
  define ls where "ls = listeners object eventNames"
  define s where "s = \<lparr>waiting = ls, invoked = [], world = w, console = [], resolved = False\<rparr>"
  have s: "waiting s = ls" "world s = w" "invoked s = []" "console s = []" "\<not> resolved s"
    by (simp_all add: s_def)
  have r: "settle call object eventNames args w =
      (executed (fst (settleEach call args s)) (resolved (snd (settleEach call args s))),
       invoked (snd (settleEach call args s)), world (snd (settleEach call args s)),
       console (snd (settleEach call args s)))"
    by (simp add: settle_def s_def ls_def case_prod_beta)
  have one: "fst (settle call object eventNames args w) \<noteq> Rejected e"
    if "\<forall>out \<in> set (outcomes call ls args w). ordinary out"
    using settleEach_ordinary_quiet[of s ls call args] that s
    by (simp add: r executed_quiet)
  have two: "fst (settle call object eventNames args w) = Resolved Undefined \<and>
      fst (snd (settle call object eventNames args w)) = ls \<and>
      snd (snd (snd (settle call object eventNames args w))) = thrown (outcomes call ls args w)"
    if "\<forall>out \<in> set (outcomes call ls args w). ordinary out \<and> settles out"
    using settleEach_ordinary_all[of s ls call args] that s
    by (simp add: r)
  have three: "fst (settle call object eventNames args w) = Pending \<and>
      fst (snd (settle call object eventNames args w)) = take (Suc i) ls"
    if "i < length ls" "\<forall>j<i. ordinary (outcomes call ls args w ! j) \<and> settles (outcomes call ls args w ! j)"
      "outcomes call ls args w ! i = Returns (Awaitable Never)"
    using settleEach_ordinary_waits[of s ls i call args] that s
    by (simp add: r executed_waiting)
  from one two three show ?thesis
    unfolding Let_def ls_def by blast
qed

lemma settle_ordinary_listeners_example:
  "fst (settle exampleCall (exampleSource [Throw, Reject, Silent, FulfilHello]) ''greeting'' [] 0)
     = Resolved Undefined \<and>
   fst (snd (settle exampleCall (exampleSource [Throw, Reject, Silent, FulfilHello]) ''greeting'' [] 0))
     = [(Throw, This), (Reject, This), (Silent, This), (FulfilHello, This)] \<and>
   snd (snd (snd (settle exampleCall (exampleSource [Throw, Reject, Silent, FulfilHello])
     ''greeting'' [] 0))) = [Str ''boom''] \<and>
   fst (settle exampleCall (exampleSource [Throw, Hang, Silent]) ''greeting'' [] 0) = Pending \<and>
   fst (snd (settle exampleCall (exampleSource [Throw, Hang, Silent]) ''greeting'' [] 0))
     = [(Throw, This), (Hang, This)]"
  using
    settle_ordinary_listeners[where object = "exampleSource [Throw, Reject, Silent, FulfilHello]"
      and eventNames = "''greeting''" and call = exampleCall and args = "[]" and w = 0
      and i = 1 and e = Undefined]
    settle_ordinary_listeners[where object = "exampleSource [Throw, Hang, Silent]"
      and eventNames = "''greeting''" and call = exampleCall and args = "[]" and w = 0
      and i = 1 and e = Undefined]
  by (simp add: Let_def listeners_exampleSource outcomes_exampleCall)

text \<open>
  What \<^verbatim>\<open>settle\<close> does when a listener that is not ordinary is reached while the calls
  are still made from the executor, that is after listeners that returned a falsy value
  or threw an error that could be written: the exception raised by \<^verbatim>\<open>response.then\<close> or
  by \<^verbatim>\<open>e.stack\<close> leaves the executor, the promise rejects with it and no later listener
  is called.
\<close>

lemma settleEach_raises:
  "waiting s = ls \<Longrightarrow> i < length ls \<Longrightarrow>
   \<forall>j<i. immediate (outcomes call ls args (world s) ! j) \<Longrightarrow>
   \<not> ordinary (outcomes call ls args (world s) ! i) \<Longrightarrow>
     fst (settleEach call args s) = Raised TypeError \<and>
     resolved (snd (settleEach call args s)) = resolved s \<and>
     invoked (snd (settleEach call args s)) = invoked s @ take (Suc i) ls"
proof (induction ls arbitrary: s i)
  case Nil
  then show ?case by simp
next
  case (Cons l ls)
  obtain out w' where c: "call l args (world s) = (out, w')" by (cases "call l args (world s)")
  define s' where "s' = s\<lparr>waiting := ls, invoked := invoked s @ [l], world := w'\<rparr>"
  note eq = settleEach_Cons[of s l ls call args out w', OF Cons.prems(1) c, folded s'_def]
  have w: "waiting s' = ls" "world s' = w'" "invoked s' = invoked s @ [l]"
    "resolved s' = resolved s"
    by (simp_all add: s'_def)
  show ?case
  proof (cases i)
    case 0
    with Cons.prems c have "\<not> ordinary out" by simp
    with 0 w show ?thesis
      by (cases out rule: ordinary.cases) (simp_all add: eq Let_def)
  next
    case (Suc k)
    with Cons.prems c have o: "immediate out" by fastforce
    from Suc Cons.prems c have k: "k < length ls" and
      pre: "\<forall>j<k. immediate (outcomes call ls args w' ! j)" and
      f: "\<not> ordinary (outcomes call ls args w' ! k)"
      by (auto simp: nth_Cons')
    have ih: "fst (settleEach call args t) = Raised TypeError \<and>
       resolved (snd (settleEach call args t)) = resolved t \<and>
       invoked (snd (settleEach call args t)) = invoked t @ take (Suc k) ls"
      if "waiting t = ls" "world t = w'" for t
      using Cons.IH[of t k] that k pre f by simp
    show ?thesis
    proof (cases out rule: immediate.cases)
      case (1 e)
      with o ih[of "s'\<lparr>console := console s' @ [e]\<rparr>"] w Suc show ?thesis
        by (cases "settleEach call args (s'\<lparr>console := console s' @ [e]\<rparr>)")
           (auto simp: eq Let_def)
    next
      case 2
      with o ih[of s'] w Suc show ?thesis
        by (cases "settleEach call args s'") (auto simp: eq Let_def)
    next
      case (3 f)
      with o show ?thesis by simp
    next
      case (4 v)
      with o show ?thesis by simp
    qed
  qed
qed

lemma settle_rejects_in_executor:
  "let ls = listeners object eventNames;
       outs = outcomes call ls args w;
       r = settle call object eventNames args w
   in i < length ls \<and> (\<forall>j<i. immediate (outs ! j)) \<and> \<not> ordinary (outs ! i) \<longrightarrow>
        fst r = Rejected TypeError \<and> fst (snd r) = take (Suc i) ls"
proof -
  define ls where "ls = listeners object eventNames"
  define s where "s = \<lparr>waiting = ls, invoked = [], world = w, console = [], resolved = False\<rparr>"
  have s: "waiting s = ls" "world s = w" "invoked s = []" "console s = []" "\<not> resolved s"
    by (simp_all add: s_def)
  have r: "settle call object eventNames args w =
      (executed (fst (settleEach call args s)) (resolved (snd (settleEach call args s))),
       invoked (snd (settleEach call args s)), world (snd (settleEach call args s)),
       console (snd (settleEach call args s)))"
    by (simp add: settle_def s_def ls_def case_prod_beta)
  have "fst (settle call object eventNames args w) = Rejected TypeError \<and>
      fst (snd (settle call object eventNames args w)) = take (Suc i) ls"
    if "i < length ls" "\<forall>j<i. immediate (outcomes call ls args w ! j)"
      "\<not> ordinary (outcomes call ls args w ! i)"
    using settleEach_raises[of s ls i call args] that s
    by (simp add: r)
  then show ?thesis
    unfolding Let_def ls_def by blast
qed

text \<open>
  Claim C4. \<^verbatim>\<open>settle\<close> is to call every listener, one after the other, a listener that
  throws or whose awaitable rejects not keeping the later ones from being called, and its
  promise is never to reject. The code sets out to do this: the call of the listener is
  wrapped in \<^verbatim>\<open>try\<close>, the error is reported as ignored, and the executor does not even
  take \<^verbatim>\<open>reject\<close>. It misses two cases. For a listener that returns \<^verbatim>\<open>true\<close>,
  \<^verbatim>\<open>response.then\<close> raises outside \<^verbatim>\<open>try\<close>: the promise of \<^verbatim>\<open>settle\<close> rejects with the
  \<^verbatim>\<open>TypeError\<close> and the second listener is never called. For a listener that throws
  \<^verbatim>\<open>undefined\<close>, reading \<^verbatim>\<open>e.stack\<close> raises inside the \<^verbatim>\<open>catch\<close> block, with the same
  end. And when the listener that returns \<^verbatim>\<open>true\<close> comes after one whose awaitable has
  rejected, the exception is lost in the callback of \<^verbatim>\<open>catch\<close>: the promise stays
  pending for ever and the third listener is never called.
\<close>

theorem settle_rejects_at_failing_listener:
  "outcomes exampleCall (listeners (exampleSource [ReturnTrue, Silent]) ''greeting'') [] 0
     = [Returns (NotThenable (Bool True)), Returns Falsy] \<and>
   fst (settle exampleCall (exampleSource [ReturnTrue, Silent]) ''greeting'' [] 0)
     = Rejected TypeError \<and>
   fst (snd (settle exampleCall (exampleSource [ReturnTrue, Silent]) ''greeting'' [] 0))
     = [(ReturnTrue, This)] \<and>
   outcomes exampleCall (listeners (exampleSource [ThrowUndefined, Silent]) ''greeting'') [] 0
     = [Throws Undefined, Returns Falsy] \<and>
   fst (settle exampleCall (exampleSource [ThrowUndefined, Silent]) ''greeting'' [] 0)
     = Rejected TypeError \<and>
   fst (snd (settle exampleCall (exampleSource [ThrowUndefined, Silent]) ''greeting'' [] 0))
     = [(ThrowUndefined, This)] \<and>
   fst (settle exampleCall (exampleSource [Reject, ReturnTrue, Silent]) ''greeting'' [] 0)
     = Pending \<and>
   fst (snd (settle exampleCall (exampleSource [Reject, ReturnTrue, Silent]) ''greeting'' [] 0))
     = [(Reject, This), (ReturnTrue, This)]"
  by (simp add: settle_def listeners_exampleSource outcomes_exampleCall exampleCall_def
      settleEach.simps)

subsection \<open>off\<close>

lemma listeners_exampleTwoEvents:
  "listeners exampleTwoEvents ''greeting'' = [(Silent, This), (Reject, This), (Silent, This)]"
  "listeners exampleTwoEvents ''farewell'' = [(Hang, This)]"
  "eventedNotifiers exampleTwoEvents ''greeting''
     = Some [(Silent, This), (Reject, This), (Silent, This)]"
  by (simp_all add: exampleTwoEvents_def exampleSource_def listeners_def on_def onEvent_def
      notifierForEvent_def addListener_def listenersStep_def isSpace_def newEvented_def
      bindingOf_def)

text \<open>
  Claim C10. \<^verbatim>\<open>off\<close> without a callback removes the notifier of every event it names,
  with all the listeners registered there: afterwards the table has no entry for the
  event and \<^verbatim>\<open>listeners\<close> of the event is empty. With a callback, for an event name
  (a name without white space), it takes the pair of that callback and the binding out of
  the listeners of the event, once, and nothing else: the other listeners of the event
  stay in their order, the listeners of other events stay as they were, and the notifier
  of the event stays in the table.
\<close>

theorem off_without_callback_removes_notifier:
  "listeners (off object eventNames None b) eventNames = [] \<and>
   (\<forall>e \<in> set (splitSpaces eventNames).
      eventedNotifiers (off object eventNames None b) e = None) \<and>
   ((\<forall>c \<in> set eventName. \<not> isSpace c) \<longrightarrow>
      listeners (off object eventName (Some callback) b) eventName
        = removeListener (listeners object eventName) callback (bindingOf b) \<and>
      removeListener (listeners object eventName) callback (bindingOf b)
        = remove1 (callback, bindingOf b) (listeners object eventName) \<and>
      ((\<forall>c \<in> set other. \<not> isSpace c) \<and> other \<noteq> eventName \<longrightarrow>
         listeners (off object eventName (Some callback) b) other = listeners object other) \<and>
      (eventedNotifiers object eventName \<noteq> None \<longrightarrow>
         eventedNotifiers (off object eventName (Some callback) b) eventName \<noteq> None))"
proof -
  have notifiers: "\<forall>e \<in> set (splitSpaces eventNames).
      eventedNotifiers (off object eventNames None b) e = None"
    by (simp add: off_def off_None_lookup)
  have with_callback: "listeners (off object eventName (Some callback) b) eventName
        = removeListener (listeners object eventName) callback (bindingOf b) \<and>
      removeListener (listeners object eventName) callback (bindingOf b)
        = remove1 (callback, bindingOf b) (listeners object eventName) \<and>
      ((\<forall>c \<in> set other. \<not> isSpace c) \<and> other \<noteq> eventName \<longrightarrow>
         listeners (off object eventName (Some callback) b) other = listeners object other) \<and>
      (eventedNotifiers object eventName \<noteq> None \<longrightarrow>
         eventedNotifiers (off object eventName (Some callback) b) eventName \<noteq> None)"
    if "\<forall>c \<in> set eventName. \<not> isSpace c"
    using that
    by (auto simp: listeners_single off_callback_single removeListener_def split: option.splits)
  from listeners_off_all[of object eventNames b] notifiers with_callback show ?thesis
    by blast
qed

theorem off_without_callback_removes_notifier_witness:
  "listeners (off exampleTwoEvents ''greeting'' None None) ''greeting'' = [] \<and>
   eventedNotifiers (off exampleTwoEvents ''greeting'' None None) ''greeting'' = None \<and>
   listeners (off exampleTwoEvents ''greeting'' (Some Silent) None) ''greeting''
     = [(Reject, This), (Silent, This)] \<and>
   listeners (off exampleTwoEvents ''greeting'' (Some Silent) None) ''farewell''
     = [(Hang, This)] \<and>
   eventedNotifiers (off exampleTwoEvents ''greeting'' (Some Silent) None) ''greeting'' \<noteq> None"
  using
    off_without_callback_removes_notifier[where object = exampleTwoEvents
      and eventNames = "''greeting''" and eventName = "''greeting''" and b = None
      and callback = Silent and other = "''farewell''"]
  by (simp add: listeners_exampleTwoEvents greeting_no_space farewell_no_space removeListener_def
      bindingOf_def splitSpaces_single)

section \<open>Properties of Action\<close>

lemma process_failure:
  assumes "\<not> processing a" and "complete a = Pending" and "fails (processFn a (runs a)) = Some e"
  shows "process a = a\<lparr> processing := False, runs := Suc (runs a), complete := Rejected e \<rparr>"
  using assms
  by (cases "processFn a (runs a)" rule: fails.cases)
     (simp_all add: process_def didNotProcess_def Let_def)

lemma process_keeps_settled:
  assumes "complete a \<noteq> Pending"
  shows "complete (process a) = complete a" and "completeRef (process a) = completeRef a"
  using assms
  by (auto simp: process_def didNotProcess_def didProcess_def Let_def
      split: attempt.splits returned.splits fate.splits)

lemma process_runs:
  "\<not> processing a \<Longrightarrow> runs (process a) = Suc (runs a)"
  by (auto simp: process_def didNotProcess_def didProcess_def Let_def
      split: attempt.splits returned.splits fate.splits)

lemma process_success:
  assumes "\<not> processing a" and "complete a = Pending" and "yields (processFn a (runs a)) = Some v"
  shows "complete (process a) = Resolved v"
  using assms
  by (cases "processFn a (runs a)" rule: yields.cases)
     (simp_all add: process_def didProcess_def Let_def)

text \<open>
  Claim C5, as amended. When the wrapped function of an action fails, by throwing or by
  returning an awaitable that rejects, while \<^verbatim>\<open>complete\<close> is pending, \<^verbatim>\<open>complete\<close>
  rejects with the failure and the processing flag is back to false, so that a further
  \<^verbatim>\<open>process()\<close> runs the wrapped function again. The failure does not rebuild
  \<^verbatim>\<open>complete\<close>: it is the same promise, it stays rejected with the first failure, and a
  further \<^verbatim>\<open>process()\<close> leaves it so whatever the function does then. Only \<^verbatim>\<open>reset()\<close>
  puts a new, pending promise in \<^verbatim>\<open>complete\<close>, which a successful \<^verbatim>\<open>process()\<close> then
  resolves.
\<close>

theorem process_failure_keeps_complete_rejected:
  assumes "\<not> processing a" and "complete a = Pending"
    and "fails (processFn a (runs a)) = Some e"
  shows "complete (process a) = Rejected e \<and>
         \<not> processing (process a) \<and>
         runs (process a) = Suc (runs a) \<and>
         completeRef (process a) = completeRef a \<and>
         runs (process (process a)) = Suc (Suc (runs a)) \<and>
         complete (process (process a)) = Rejected e \<and>
         completeRef (process (process a)) = completeRef a \<and>
         complete (reset (process a)) = Pending \<and>
         completeRef (reset (process a)) \<noteq> completeRef a \<and>
         (yields (processFn a (Suc (runs a))) = Some v \<longrightarrow>
            complete (process (reset (process a))) = Resolved v)"
proof -
  let ?a1 = "process a"
  have a1: "?a1 = a\<lparr> processing := False, runs := Suc (runs a), complete := Rejected e \<rparr>"
    by (rule process_failure[OF assms])
  have idle: "\<not> processing ?a1" and settled: "complete ?a1 \<noteq> Pending"
    by (simp_all add: a1)
  have again: "runs (process ?a1) = Suc (Suc (runs a))"
    using process_runs[OF idle] by (simp add: a1)
  have stays: "complete (process ?a1) = Rejected e" "completeRef (process ?a1) = completeRef a"
    using process_keeps_settled[OF settled] by (simp_all add: a1)
  have fresh: "\<not> processing (reset ?a1)" "complete (reset ?a1) = Pending"
    "completeRef (reset ?a1) \<noteq> completeRef a" "runs (reset ?a1) = Suc (runs a)"
    "processFn (reset ?a1) = processFn a"
    by (simp_all add: a1 reset_def)
  have retry: "complete (process (reset ?a1)) = Resolved v"
    if "yields (processFn a (Suc (runs a))) = Some v"
    using process_success[OF fresh(1) fresh(2), of v] that by (simp add: fresh)
  from a1 again stays fresh retry show ?thesis
    by simp
qed

lemma exampleAction_fields:
  "\<not> processing exampleAction" "complete exampleAction = Pending" "runs exampleAction = 0"
  "processFn exampleAction = failsOnce" "completeRef exampleAction = 1"
  by (simp_all add: exampleAction_def newAction_def reset_def)

theorem process_failure_keeps_complete_rejected_witness:
  "fails (processFn exampleAction (runs exampleAction)) = Some (Str ''boom'') \<and>
   complete (process exampleAction) = Rejected (Str ''boom'') \<and>
   \<not> processing (process exampleAction) \<and>
   runs (process (process exampleAction)) = 2 \<and>
   complete (process (process exampleAction)) = Rejected (Str ''boom'') \<and>
   yields (processFn exampleAction (Suc (runs exampleAction))) = Some (Str ''done'') \<and>
   complete (process (reset (process exampleAction))) = Resolved (Str ''done'')"
proof -
  have f: "fails (processFn exampleAction (runs exampleAction)) = Some (Str ''boom'')"
    by (simp add: exampleAction_fields failsOnce_def)
  have y: "yields (processFn exampleAction (Suc (runs exampleAction))) = Some (Str ''done'')"
    by (simp add: exampleAction_fields failsOnce_def)
  from process_failure_keeps_complete_rejected[OF exampleAction_fields(1) exampleAction_fields(2) f,
      of "Str ''done''"] f y
  show ?thesis
    by (simp add: exampleAction_fields)
qed

text \<open>
  Claim C5 as it was stated fails in its last part: after the failure the function is run
  a second time and succeeds, and \<^verbatim>\<open>complete\<close> is still the promise it was, rejected
  with the first error.
\<close>

theorem process_retry_counterexample:
  "fails (processFn exampleAction 0) = Some (Str ''boom'') \<and>
   yields (processFn exampleAction 1) = Some (Str ''done'') \<and>
   complete (process exampleAction) = Rejected (Str ''boom'') \<and>
   runs (process (process exampleAction)) = 2 \<and>
   complete (process (process exampleAction)) = Rejected (Str ''boom'') \<and>
   completeRef (process (process exampleAction)) = completeRef exampleAction"
  by (simp add: exampleAction_def newAction_def reset_def process_def didNotProcess_def
      didProcess_def failsOnce_def Let_def)

section \<open>Properties of the JSON:API source\<close>

lemma join_append:
  "xs \<noteq> [] \<Longrightarrow> ys \<noteq> [] \<Longrightarrow> join sep (xs @ ys) = join sep xs @ sep @ join sep ys"
proof (induction sep xs rule: join.induct)
  case (1 sep)
  then show ?case by simp
next
  case (2 sep x)
  then show ?case by (cases ys) simp_all
next
  case (3 sep x y ys')
  then show ?case by simp
qed

lemma join_nested:
  "ys \<noteq> [] \<Longrightarrow> join sep (xs @ [join sep ys]) = join sep (xs @ ys)"
  by (cases "xs = []") (simp_all add: join_append)

lemma resourcePath_segments:
  "resourcePath src type id' =
     join ''/'' ([resourceType (serializer src) type] @
       segment (if truthyStr id' then resourceId (serializer src) type (the id') else None))"
  by (simp add: resourcePath_def segment_def Let_def truthyStr_def)

lemma resourceURL_path:
  "resourceURL src type id' =
     (if truthyStr (host src) then [] else ''/'') @
     join ''/'' ((segment (host src) @ segment (namespace src)) @ [resourcePath src type id'])"
  by (simp add: resourceURL_def resourceHost_def resourceNamespace_def segment_def Let_def)

lemma resourceURL_segments:
  "resourceURL src type id' =
     (if truthyStr (host src) then [] else ''/'') @
     join ''/'' (segment (host src) @ segment (namespace src) @
       [resourceType (serializer src) type] @
       segment (if truthyStr id' then resourceId (serializer src) type (the id') else None))"
proof -
  have "join ''/'' ((segment (host src) @ segment (namespace src)) @ [resourcePath src type id'])
      = join ''/'' ((segment (host src) @ segment (namespace src)) @
          ([resourceType (serializer src) type] @
           segment (if truthyStr id' then resourceId (serializer src) type (the id') else None)))"
    unfolding resourcePath_segments by (rule join_nested) simp
  then show ?thesis
    unfolding resourceURL_path by (simp only: append_assoc)
qed

text \<open>
  Claim C9. The address of a resource is put together from the host, if one is set, the
  namespace, if one is set, the serialized type and the serialized id, if an id is given
  and the serializer has one for it, joined with \<^verbatim>\<open>/\<close>; without a host the address
  starts with \<^verbatim>\<open>/\<close>. The address of a relationship is the address of the resource,
  then \<^verbatim>\<open>/relationships/\<close>, then the serialized name of the relationship. The request
  for \<^verbatim>\<open>addToHasMany\<close> is a \<^verbatim>\<open>POST\<close> to that address, which for a source without host
  and namespace reads \<^verbatim>\<open>/{type}/{id}/relationships/{rel}\<close> in serialized names.
\<close>

theorem resourceURL_composition:
  "resourceURL src type id' =
     (if truthyStr (host src) then [] else ''/'') @
     join ''/'' (segment (host src) @ segment (namespace src) @
       [resourceType (serializer src) type] @
       segment (if truthyStr id' then resourceId (serializer src) type (the id') else None)) \<and>
   resourceRelationshipURL src type id' relationship =
     resourceURL src type id' @ ''/relationships/'' @
       resourceRelationship (serializer src) type relationship \<and>
   fst (addToHasManyRequest src (type, i) relationship) = POST \<and>
   snd (addToHasManyRequest src (type, i) relationship) =
     resourceRelationshipURL src type (Some i) relationship \<and>
   (\<not> truthyStr (host src) \<and> \<not> truthyStr (namespace src) \<and> i \<noteq> [] \<and>
    resourceId (serializer src) type i = Some ri \<and> ri \<noteq> [] \<longrightarrow>
      addToHasManyRequest src (type, i) relationship =
        (POST, ''/'' @ resourceType (serializer src) type @ ''/'' @ ri @ ''/relationships/'' @
               resourceRelationship (serializer src) type relationship))"
  by (simp add: resourceURL_segments resourceRelationshipURL_def addToHasManyRequest_def
      segment_def truthyStr_def)

theorem resourceURL_composition_witness:
  "addToHasManyRequest plainSource (''planet'', ''jupiter'') ''moons''
     = (POST, ''/planets/jupiter/relationships/moons'') \<and>
   resourceURL plainSource ''planet'' None = ''/planets'' \<and>
   resourceURL hostedSource ''planet'' (Some ''jupiter'')
     = ''http://api.example.com/v1/planets/jupiter''"
  using resourceURL_composition[of plainSource "''planet''" "Some ''jupiter''" "''moons''"
      "''jupiter''" "''jupiter''"]
    resourceURL_composition[of plainSource "''planet''" None "''moons''" "''jupiter''" "''jupiter''"]
    resourceURL_composition[of hostedSource "''planet''" "Some ''jupiter''" "''moons''"
      "''jupiter''" "''jupiter''"]
  by (simp add: plainSource_def hostedSource_def newJSONAPISource_def exampleOptions_def
      exampleSerializer_def segment_def truthyStr_def)

text \<open>
  Claim C6, as amended. When \<^verbatim>\<open>maxRequestsPerTransform\<close> is set to a number other than
  zero and a transform needs more requests than that, \<^verbatim>\<open>_transform\<close> rejects with
  \<^verbatim>\<open>TransformNotAllowed\<close> and hands no request to a processor; likewise \<^verbatim>\<open>_fetch\<close>
  rejects with \<^verbatim>\<open>FetchNotAllowed\<close> and hands no request to a processor when
  \<^verbatim>\<open>maxRequestsPerFetch\<close> is set to a number other than zero and the query needs more
  requests than that.
\<close>

theorem requests_over_limit_not_allowed:
  "(maxRequestsPerTransform src = Some m \<and> m \<noteq> 0 \<and> m < int (length (getTransformRequests t)) \<longrightarrow>
      sourceTransform getTransformRequests transformProcessors src t w =
        (Rejected (TransformNotAllowed (length (getTransformRequests t)) m t), [], w)) \<and>
   (maxRequestsPerFetch src = Some k \<and> k \<noteq> 0 \<and> k < int (length (getFetchRequests q)) \<longrightarrow>
      sourceFetch getFetchRequests fetchProcessors src q w =
        (Rejected (FetchNotAllowed (length (getFetchRequests q)) k q), [], w))"
  by (simp add: sourceTransform_def sourceFetch_def truthyNum_def Let_def)

lemma cappedSource_limits:
  "maxRequestsPerTransform (cappedSource n) = Some n"
  "maxRequestsPerFetch (cappedSource n) = Some n"
  by (simp_all add: cappedSource_def newJSONAPISource_def)

theorem requests_over_limit_not_allowed_witness:
  "sourceTransform exampleRequests exampleProcessors (cappedSource 1)
       [''addRecord'', ''addToHasMany''] 0 =
     (Rejected (TransformNotAllowed 2 1 [''addRecord'', ''addToHasMany'']), [], 0) \<and>
   sourceFetch exampleRequests exampleProcessors (cappedSource 1) [''records'', ''record''] 0 =
     (Rejected (FetchNotAllowed 2 1 [''records'', ''record'']), [], 0)"
  using requests_over_limit_not_allowed[of "cappedSource 1" 1 exampleRequests
      "[''addRecord'', ''addToHasMany'']" exampleProcessors 0 1 exampleRequests
      "[''records'', ''record'']" exampleProcessors]
  by (simp add: cappedSource_limits exampleRequests_def numeral_2_eq_2)

text \<open>
  Claim C6 as it was stated fails for a limit of zero, which the guard
  \<^verbatim>\<open>this.maxRequestsPerTransform && ...\<close> takes for no limit: the transform needs one
  request, more than the limit, and the request is sent and the transform resolves. The
  same holds for the query.
\<close>

theorem zero_limit_counterexample:
  "maxRequestsPerTransform (cappedSource 0) = Some 0 \<and>
   0 < int (length (exampleRequests [''addRecord''])) \<and>
   sourceTransform exampleRequests exampleProcessors (cappedSource 0) [''addRecord''] 0 =
     (Resolved [[''addRecord'']], [''addRecord''], 1) \<and>
   maxRequestsPerFetch (cappedSource 0) = Some 0 \<and>
   sourceFetch exampleRequests exampleProcessors (cappedSource 0) [''records''] 0 =
     (Resolved [], [''records''], 1)"
  by (simp add: cappedSource_limits exampleRequests_def exampleProcessors_def
      exampleProcessor_def sourceTransform_def sourceFetch_def processRequests_def truthyNum_def
      Let_def)

section \<open>Properties of the cache integrity processor\<close>

subsection \<open>Reading and writing the reverse index\<close>

lemma revLink_setRevLink:
  "revLink (setRevLink rv y ps) y' = (if y' = y then Some ps else revLink rv y')"
  by (cases y; cases y') (auto simp: revLink_def setRevLink_def split: option.splits)

lemma revLink_addRevLink:
  "revLink (addRevLink rv y p) y' =
     (if y' = y then Some (if p \<in> set (revPaths rv y) then revPaths rv y else revPaths rv y @ [p])
      else revLink rv y')"
  by (simp add: addRevLink_def revLink_setRevLink)

lemma revLink_removeRevLink:
  "revLink (removeRevLink rv y p) y' =
     (if y' = y then map_option (removeAll p) (revLink rv y) else revLink rv y')"
  by (auto simp: removeRevLink_def revLink_setRevLink split: option.splits)

lemma revLink_deleteRevLinks:
  "revLink (deleteRevLinks rv y) y' = (if y' = y then None else revLink rv y')"
  by (cases y; cases y') (auto simp: revLink_def deleteRevLinks_def split: option.splits)

lemma revPaths_addRevLink:
  "set (revPaths (addRevLink rv y p) y') =
     (if y' = y then insert p (set (revPaths rv y)) else set (revPaths rv y'))"
  by (auto simp: revPaths_def revLink_addRevLink split: option.splits)

lemma revPaths_removeRevLink_list:
  "revPaths (removeRevLink rv y p) y' =
     (if y' = y then removeAll p (revPaths rv y) else revPaths rv y')"
  by (cases "revLink rv y") (simp_all add: revPaths_def revLink_removeRevLink)

lemma revPaths_removeRevLink:
  "set (revPaths (removeRevLink rv y p) y') =
     (if y' = y then set (revPaths rv y) - {p} else set (revPaths rv y'))"
  by (simp add: revPaths_removeRevLink_list)

lemma revPaths_addRevLinks:
  "set (revPaths (addRevLinks rv ps) y) = set (revPaths rv y) \<union> {p. (y, p) \<in> set ps}"
  unfolding addRevLinks_def
  by (induction ps arbitrary: rv) (auto simp: revPaths_addRevLink split: if_splits)

lemma revPaths_removeRevLinks:
  "set (revPaths (removeRevLinks rv ps) y) = set (revPaths rv y) - {p. (y, p) \<in> set ps}"
  unfolding removeRevLinks_def
  by (induction ps arbitrary: rv) (auto simp: revPaths_removeRevLink split: if_splits)


subsection \<open>What the hooks do to the index\<close>

lemma runHooks_after:
  "fst (runHooks st operation) = fst (finallyHook (st\<lparr>revIndex := fst (afterHook st operation)\<rparr>) operation)"
  "fst (snd (snd (runHooks st operation))) = snd (afterHook st operation)"
  by (simp_all add: runHooks_def beforeHook_def split: prod.splits)

lemma hasManyPath_inject: "hasManyPath x r s = hasManyPath x r s' \<longleftrightarrow> s = s'"
  by (simp add: hasManyPath_def)

lemma revPaths_replaceHasMany:
  "set (revPaths (fst (runHooks st (ReplaceHasMany x r ys))) y) =
     (set (revPaths (revIndex st) y)
        - {hasManyPath x r s | s. s \<in> set (priorHasMany (records st) x r) \<and>
             s \<notin> toIdentifier ` set ys \<and> parseIdentifier s = y})
     \<union> {hasManyPath x r (toIdentifier y) | y'. y' = y \<and> y \<in> set ys \<and>
             toIdentifier y \<notin> set (priorHasMany (records st) x r)}"
  by (auto simp: runHooks_after Let_def revPaths_addRevLinks revPaths_removeRevLinks)

lemma revPaths_replaceHasOne:
  "set (revPaths (fst (runHooks st (ReplaceHasOne x r ynew))) y) =
     (set (revPaths (revIndex st) y)
        - {p. p = hasOnePath x r \<and> (\<exists>s. priorHasOne (records st) x r = Some s \<and> parseIdentifier s = y)})
     \<union> {p. p = hasOnePath x r \<and> ynew = Some y}"
  by (auto simp: runHooks_after Let_def revPaths_addRevLink revPaths_removeRevLink
      split: option.splits if_splits)


subsection \<open>Source paths and their segments\<close>

lemma five_segments:
  "5 \<le> length xs \<Longrightarrow> \<exists>t i rels r d rest. xs = t # i # rels # r # d # rest"
  by (auto simp: numeral_eq_Suc Suc_le_length_iff)

lemma splitOn_nonempty: "splitOn d s \<noteq> []"
  by (induction s) (auto split: list.splits)

lemma length_splitOn_append:
  "length (splitOn d (a @ d # b)) = length (splitOn d a) + length (splitOn d b)"
  by (induction a) (auto split: list.splits simp: splitOn_nonempty)

lemma splitOn_free: "d \<notin> set a \<Longrightarrow> splitOn d a = [a]"
  by (induction a) auto

lemma splitOn_free_append: "d \<notin> set a \<Longrightarrow> splitOn d (a @ d # b) = a # splitOn d b"
  by (induction a) (auto split: list.splits)

lemma length_splitOn_ge1: "1 \<le> length (splitOn d s)"
  using splitOn_nonempty[of d s] by (cases "splitOn d s") auto

lemma hasOnePath_segments: "5 \<le> length (splitOn CHR ''/'' (hasOnePath x r))"
proof -
  have "hasOnePath x r = fst x @ CHR ''/'' # (snd x @ CHR ''/'' # (''relationships'' @ CHR ''/'' # (r @ CHR ''/'' # ''data'')))"
    by (simp add: hasOnePath_def)
  then show ?thesis
    using length_splitOn_ge1[of "CHR ''/''" "fst x"] length_splitOn_ge1[of "CHR ''/''" "snd x"]
      length_splitOn_ge1[of "CHR ''/''" r]
    by (simp add: length_splitOn_append splitOn_free)
qed

lemma hasManyPath_segments: "5 \<le> length (splitOn CHR ''/'' (hasManyPath x r s))"
proof -
  have "hasManyPath x r s = hasOnePath x r @ CHR ''/'' # s"
    by (simp add: hasManyPath_def)
  then show ?thesis
    using hasOnePath_segments[of x r] by (simp add: length_splitOn_append)
qed

lemma compensate_hasOnePath:
  assumes "CHR ''/'' \<notin> set (fst s)" "CHR ''/'' \<notin> set (snd s)" "CHR ''/'' \<notin> set r"
  shows "compensate x (hasOnePath s r) = Some (ReplaceHasOne s r None)"
proof -
  have "hasOnePath s r = fst s @ CHR ''/'' # (snd s @ CHR ''/'' # (''relationships'' @ CHR ''/'' # (r @ CHR ''/'' # ''data'')))"
    by (simp add: hasOnePath_def)
  then have "splitOn CHR ''/'' (hasOnePath s r) = [fst s, snd s, ''relationships'', r, ''data'']"
    using assms by (simp add: splitOn_free_append splitOn_free)
  then show ?thesis
    by (simp add: compensate_def)
qed

lemma compensate_hasManyPath:
  assumes "CHR ''/'' \<notin> set (fst s)" "CHR ''/'' \<notin> set (snd s)" "CHR ''/'' \<notin> set r"
  shows "compensate x (hasManyPath s r member) = Some (RemoveFromHasMany s r x)"
proof -
  have "hasManyPath s r member = fst s @ CHR ''/'' # (snd s @ CHR ''/'' # (''relationships'' @ CHR ''/'' # (r @ CHR ''/'' # (''data'' @ CHR ''/'' # member))))"
    by (simp add: hasManyPath_def hasOnePath_def)
  then have "splitOn CHR ''/'' (hasManyPath s r member) = fst s # snd s # ''relationships'' # r # ''data'' # splitOn CHR ''/'' member"
    using assms by (simp add: splitOn_free_append)
  then show ?thesis
    using splitOn_nonempty[of "CHR ''/''" member]
    by (cases "splitOn CHR ''/'' member") (simp_all add: compensate_def)
qed

lemma compensate_total:
  assumes "5 \<le> length (splitOn CHR ''/'' p)"
  shows "\<exists>operation. compensate x p = Some operation \<and> isCompensation x operation"
proof -
  from five_segments[OF assms] obtain t i rels r d rest
    where "splitOn CHR ''/'' p = t # i # rels # r # d # rest"
    by blast
  then show ?thesis
    by (cases rest) (simp_all add: compensate_def)
qed


subsection \<open>The index stays well formed\<close>

lemma map_filter_total:
  "\<forall>p \<in> set ps. f p \<noteq> None \<Longrightarrow> map Some (List.map_filter f ps) = map f ps"
  by (induction ps) (auto simp: List.map_filter_simps)

lemma wellFormed_alt:
  "wellFormed rv = (\<forall>y. \<forall>p \<in> set (revPaths rv y). 5 \<le> length (splitOn CHR ''/'' p))"
proof
  assume w: "wellFormed rv"
  show "\<forall>y. \<forall>p \<in> set (revPaths rv y). 5 \<le> length (splitOn CHR ''/'' p)"
  proof (intro allI ballI)
    fix y p
    assume "p \<in> set (revPaths rv y)"
    then obtain ps where "revLink rv y = Some ps" and "p \<in> set ps"
      by (cases "revLink rv y") (auto simp: revPaths_def)
    with w show "5 \<le> length (splitOn CHR ''/'' p)"
      unfolding wellFormed_def by blast
  qed
next
  assume a: "\<forall>y. \<forall>p \<in> set (revPaths rv y). 5 \<le> length (splitOn CHR ''/'' p)"
  show "wellFormed rv"
    unfolding wellFormed_def
  proof (intro allI impI ballI)
    fix y ps p
    assume "revLink rv y = Some ps" and "p \<in> set ps"
    then have "p \<in> set (revPaths rv y)"
      by (simp add: revPaths_def)
    with a show "5 \<le> length (splitOn CHR ''/'' p)"
      by blast
  qed
qed

lemma wellFormed_empty: "wellFormed Map.empty"
  by (simp add: wellFormed_def revLink_def)

lemma wellFormed_addRevLink:
  "wellFormed rv \<Longrightarrow> 5 \<le> length (splitOn CHR ''/'' p) \<Longrightarrow> wellFormed (addRevLink rv y p)"
  unfolding wellFormed_alt by (auto simp: revPaths_addRevLink split: if_splits)

lemma wellFormed_removeRevLink: "wellFormed rv \<Longrightarrow> wellFormed (removeRevLink rv y p)"
  unfolding wellFormed_alt by (auto simp: revPaths_removeRevLink split: if_splits)

lemma wellFormed_deleteRevLinks: "wellFormed rv \<Longrightarrow> wellFormed (deleteRevLinks rv y)"
  unfolding wellFormed_def by (auto simp: revLink_deleteRevLinks split: if_splits)

lemma wellFormed_addRevLinks:
  "wellFormed rv \<Longrightarrow> \<forall>(y, p) \<in> set ps. 5 \<le> length (splitOn CHR ''/'' p) \<Longrightarrow>
     wellFormed (addRevLinks rv ps)"
  unfolding wellFormed_alt by (auto simp: revPaths_addRevLinks)

lemma wellFormed_removeRevLinks: "wellFormed rv \<Longrightarrow> wellFormed (removeRevLinks rv ps)"
  unfolding wellFormed_alt by (auto simp: revPaths_removeRevLinks)

lemma relationshipPointers_segments:
  "(y, p) \<in> set (relationshipPointers x rel) \<Longrightarrow> 5 \<le> length (splitOn CHR ''/'' p)"
  by (cases "(x, rel)" rule: relationshipPointers.cases)
     (auto simp: hasOnePath_segments hasManyPath_segments)

lemma recordPointers_segments:
  "(y, p) \<in> set (recordPointers c) \<Longrightarrow> 5 \<le> length (splitOn CHR ''/'' p)"
  by (auto simp: recordPointers_def dest: relationshipPointers_segments)

lemma wellFormed_addRecordPointers:
  "wellFormed rv \<Longrightarrow> wellFormed (addRevLinks rv (recordPointers c))"
  by (rule wellFormed_addRevLinks) (auto dest: recordPointers_segments)

lemma wellFormed_afterHook:
  "wellFormed (revIndex st) \<Longrightarrow> wellFormed (fst (afterHook st operation))"
  by (cases operation)
     (auto simp: Let_def hasOnePath_segments hasManyPath_segments
        intro!: wellFormed_addRevLinks wellFormed_removeRevLinks wellFormed_addRevLink
          wellFormed_removeRevLink wellFormed_addRecordPointers
        split: option.splits)

lemma wellFormed_finallyHook:
  "wellFormed (revIndex st) \<Longrightarrow> wellFormed (fst (finallyHook st operation))"
  by (cases operation) (auto intro: wellFormed_deleteRevLinks)

lemma wellFormed_resetCache: "wellFormed (revIndex (resetCache data))"
proof -
  have "wellFormed rv \<Longrightarrow> wellFormed (foldl (\<lambda>rv c. addRevLinks rv (recordPointers c)) rv data)" for rv
    by (induction data arbitrary: rv) (auto intro: wellFormed_addRecordPointers)
  then show ?thesis
    by (simp add: resetCache_def wellFormed_empty)
qed

lemma afterHook_emits:
  "snd (afterHook st operation) =
     (case operation of
        RemoveRecord x \<Rightarrow> List.map_filter (compensate x) (revPaths (revIndex st) x)
      | _ \<Rightarrow> [])"
  by (cases operation) (auto simp: Let_def split: option.splits)

lemma patchOp_plain:
  assumes "\<forall>x. operation \<noteq> RemoveRecord x"
  shows "patchOp (Suc n) st operation =
     Some \<lparr> records = applyOperation (records st) operation, revIndex = fst (afterHook st operation) \<rparr>"
  using assms
  by (cases operation) (auto simp: beforeHook_def Let_def split: prod.splits option.splits)


subsection \<open>The patch cycle\<close>

lemma compensate_isCompensation: "compensate x p = Some operation \<Longrightarrow> isCompensation x operation"
  unfolding compensate_def
  by (simp split: list.splits) auto

lemma compensations_emitted:
  "\<forall>operation \<in> set (List.map_filter (compensate x) ps). isCompensation x operation"
  by (auto simp: List.map_filter_def dest: compensate_isCompensation)

lemma isCompensation_plain: "isCompensation x operation \<Longrightarrow> \<forall>y. operation \<noteq> RemoveRecord y"
  by (cases "(x, operation)" rule: isCompensation.cases) auto

lemma setRelationship_absent: "rs x = None \<Longrightarrow> setRelationship s r d rs x = None"
  by (auto simp: setRelationship_def split: option.splits)

lemma applyOperation_absent:
  "isCompensation x operation \<Longrightarrow> rs x = None \<Longrightarrow> applyOperation rs operation x = None"
  by (cases "(x, operation)" rule: isCompensation.cases)
     (auto simp: setRelationship_absent split: option.splits reldata.splits)

lemma patch_compensations:
  assumes "\<forall>operation \<in> set ops. isCompensation x operation"
  shows "\<exists>st'. foldl (\<lambda>s o'. Option.bind s (\<lambda>s'. patchOp (Suc n) s' o')) (Some st) ops = Some st' \<and>
           (records st x = None \<longrightarrow> records st' x = None) \<and>
           (wellFormed (revIndex st) \<longrightarrow> wellFormed (revIndex st'))"
  using assms
proof (induction ops arbitrary: st)
  case Nil
  then show ?case by simp
next
  case (Cons operation ops)
  let ?st1 = "\<lparr> records = applyOperation (records st) operation,
                 revIndex = fst (afterHook st operation) \<rparr>"
  from Cons.prems have c: "isCompensation x operation"
    and rest: "\<forall>operation \<in> set ops. isCompensation x operation"
    by simp_all
  have step: "patchOp (Suc n) st operation = Some ?st1"
    by (rule patchOp_plain[OF isCompensation_plain[OF c]])
  from Cons.IH[OF rest, of ?st1] obtain st' where
    ih: "foldl (\<lambda>s o'. Option.bind s (\<lambda>s'. patchOp (Suc n) s' o')) (Some ?st1) ops = Some st' \<and>
           (records ?st1 x = None \<longrightarrow> records st' x = None) \<and>
           (wellFormed (revIndex ?st1) \<longrightarrow> wellFormed (revIndex st'))" ..
  from ih have run:
    "foldl (\<lambda>s o'. Option.bind s (\<lambda>s'. patchOp (Suc n) s' o')) (Some ?st1) ops = Some st'"
    by (rule conjunct1)
  from ih have absent: "records ?st1 x = None \<longrightarrow> records st' x = None"
    by (rule conjunct2[THEN conjunct1])
  from ih have wf: "wellFormed (revIndex ?st1) \<longrightarrow> wellFormed (revIndex st')"
    by (rule conjunct2[THEN conjunct2])
  have a1: "records st x = None \<longrightarrow> records ?st1 x = None"
    using applyOperation_absent[OF c, of "records st"] by simp
  have w1: "wellFormed (revIndex st) \<longrightarrow> wellFormed (revIndex ?st1)"
    using wellFormed_afterHook[of st operation] by simp
  have "foldl (\<lambda>s o'. Option.bind s (\<lambda>s'. patchOp (Suc n) s' o')) (Some st) (operation # ops)
      = foldl (\<lambda>s o'. Option.bind s (\<lambda>s'. patchOp (Suc n) s' o')) (Some ?st1) ops"
    by (simp del: patchOp.simps add: step)
  then have "foldl (\<lambda>s o'. Option.bind s (\<lambda>s'. patchOp (Suc n) s' o')) (Some st) (operation # ops)
      = Some st'"
    using run by (rule trans)
  moreover from a1 absent have "records st x = None \<longrightarrow> records st' x = None"
    by (simp del: patchOp.simps)
  moreover from w1 wf have "wellFormed (revIndex st) \<longrightarrow> wellFormed (revIndex st')"
    by (simp del: patchOp.simps)
  ultimately show ?case
    by (intro exI conjI)
qed

lemma patchOp_removeRecord:
  "\<exists>st'. patchOp (Suc (Suc n)) st (RemoveRecord x) = Some st' \<and>
         revLink (revIndex st') x = None \<and> records st' x = None \<and>
         (wellFormed (revIndex st) \<longrightarrow> wellFormed (revIndex st'))"
proof -
  let ?ops = "snd (afterHook st (RemoveRecord x))"
  let ?st1 = "\<lparr> records = applyOperation (records st) (RemoveRecord x),
                 revIndex = fst (afterHook st (RemoveRecord x)) \<rparr>"
  have "\<forall>operation \<in> set ?ops. isCompensation x operation"
    by (simp add: afterHook_emits compensations_emitted)
  from patch_compensations[OF this, of n ?st1] obtain st2 where
    st2: "foldl (\<lambda>s o'. Option.bind s (\<lambda>s'. patchOp (Suc n) s' o')) (Some ?st1) ?ops = Some st2 \<and>
           (records ?st1 x = None \<longrightarrow> records st2 x = None) \<and>
           (wellFormed (revIndex ?st1) \<longrightarrow> wellFormed (revIndex st2))" ..
  from st2 have run:
    "foldl (\<lambda>s o'. Option.bind s (\<lambda>s'. patchOp (Suc n) s' o')) (Some ?st1) ?ops = Some st2"
    by (rule conjunct1)
  from st2 have absent: "records st2 x = None"
    by simp
  from st2 have wf: "wellFormed (revIndex ?st1) \<longrightarrow> wellFormed (revIndex st2)"
    by (rule conjunct2[THEN conjunct2])
  have p: "patchOp (Suc (Suc n)) st (RemoveRecord x) =
      Some (st2\<lparr>revIndex := deleteRevLinks (revIndex st2) x\<rparr>)"
    using run
    by (subst patchOp.simps(2))
       (simp del: patchOp.simps afterHook.simps add: beforeHook_def case_prod_beta)
  have "wellFormed (revIndex st) \<longrightarrow> wellFormed (deleteRevLinks (revIndex st2) x)"
    using wf wellFormed_afterHook[of st "RemoveRecord x"] wellFormed_deleteRevLinks by simp
  with p absent show ?thesis
    by (simp del: patchOp.simps add: revLink_deleteRevLinks)
qed

lemma patchOp_total: "\<exists>st'. patchOp (Suc (Suc n)) st operation = Some st'"
proof (cases "\<exists>x. operation = RemoveRecord x")
  case True
  then show ?thesis using patchOp_removeRecord by blast
next
  case False
  then show ?thesis using patchOp_plain[of operation "Suc n" st] by (simp del: patchOp.simps)
qed

lemma wellFormed_fold:
  assumes step: "\<And>s operation s'. wellFormed (revIndex s) \<Longrightarrow> patchOp k s operation = Some s'
           \<Longrightarrow> wellFormed (revIndex s')"
    and "wellFormed (revIndex st)"
    and "foldl (\<lambda>s o'. Option.bind s (\<lambda>s'. patchOp k s' o')) (Some st) ops = Some st'"
  shows "wellFormed (revIndex st')"
  using assms(2,3)
proof (induction ops arbitrary: st)
  case Nil
  then show ?case by simp
next
  case (Cons operation ops)
  show ?case
  proof (cases "patchOp k st operation")
    case None
    have "foldl (\<lambda>s o'. Option.bind s (\<lambda>s'. patchOp k s' o')) None ops = None"
      by (induction ops) simp_all
    with Cons.prems(2) None show ?thesis
      by (simp del: patchOp.simps)
  next
    case (Some s1)
    with Cons.prems(2) have
      "foldl (\<lambda>s o'. Option.bind s (\<lambda>s'. patchOp k s' o')) (Some s1) ops = Some st'"
      by (simp del: patchOp.simps)
    moreover have "wellFormed (revIndex s1)"
      by (rule step[OF Cons.prems(1) Some])
    ultimately show ?thesis
      by (rule Cons.IH[rotated])
  qed
qed

lemma wellFormed_patchOp:
  "wellFormed (revIndex st) \<Longrightarrow> patchOp k st operation = Some st' \<Longrightarrow> wellFormed (revIndex st')"
proof (induction k arbitrary: st operation st')
  case 0
  then show ?case by simp
next
  case (Suc k)
  let ?F = "foldl (\<lambda>s o'. Option.bind s (\<lambda>s'. patchOp k s' o'))"
  let ?st1 = "\<lparr> records = applyOperation (records st) operation,
                 revIndex = fst (afterHook st operation) \<rparr>"
  from Suc.prems(2) obtain st2 where
    run: "?F (Some ?st1) (snd (afterHook st operation)) = Some st2"
    and fin: "?F (Some (st2\<lparr>revIndex := fst (finallyHook st2 operation)\<rparr>))
                (snd (finallyHook st2 operation)) = Some st'"
    by (subst (asm) patchOp.simps(2))
       (auto simp del: patchOp.simps afterHook.simps finallyHook.simps
          simp: beforeHook_def case_prod_beta split: option.splits)
  have "wellFormed (revIndex ?st1)"
    using wellFormed_afterHook[OF Suc.prems(1), of operation] by simp
  from wellFormed_fold[OF Suc.IH this run] have "wellFormed (revIndex st2)" .
  then have "wellFormed (revIndex (st2\<lparr>revIndex := fst (finallyHook st2 operation)\<rparr>))"
    using wellFormed_finallyHook[of st2 operation] by simp
  from wellFormed_fold[OF Suc.IH this fin] show ?case .
qed

subsection \<open>The states the unit test expects\<close>

text \<open>
  The model against the unit test of the processor: the index after \<^verbatim>\<open>reset\<close> and after
  the three hooks, for the operations the test applies to a relationship of their own
  kind.
\<close>

lemma test_reset:
  "revLink (revIndex moonsCache) (''moon'', ''europa'')
     = Some [''planet/jupiter/relationships/moons/data/moon:europa'']"
  "revLink (revIndex moonsCache) (''moon'', ''titan'')
     = Some [''planet/saturn/relationships/moons/data/moon:titan'']"
  "revLink (revIndex moonsCache) (''planet'', ''jupiter'')
     = Some [''moon/europa/relationships/planet/data'']"
  "revLink (revIndex moonsCache) (''planet'', ''saturn'')
     = Some [''moon/titan/relationships/planet/data'']"
  by code_simp+

lemma test_replaceHasMany_empty:
  "revLink (fst (runHooks saturnTitanCache (ReplaceHasMany (''planet'', ''saturn'') ''moons'' [])))
     (''moon'', ''titan'') = Some []"
  "revLink (fst (runHooks saturnTitanCache (ReplaceHasMany (''planet'', ''saturn'') ''moons'' [])))
     (''planet'', ''saturn'') = Some [''moon/titan/relationships/planet/data'']"
  "snd (runHooks saturnTitanCache (ReplaceHasMany (''planet'', ''saturn'') ''moons'' []))
     = ([], [], [])"
  by code_simp+

lemma test_replaceHasMany_same:
  "revLink (fst (runHooks saturnTitanCache
      (ReplaceHasMany (''planet'', ''saturn'') ''moons'' [(''moon'', ''titan'')])))
     (''moon'', ''titan'') = Some [''planet/saturn/relationships/moons/data/moon:titan'']"
  "revLink (fst (runHooks saturnTitanCache
      (ReplaceHasMany (''planet'', ''saturn'') ''moons'' [(''moon'', ''titan'')])))
     (''planet'', ''saturn'') = Some [''moon/titan/relationships/planet/data'']"
  by code_simp+

lemma test_replaceHasMany_inhabitants:
  "revLink (fst (runHooks inhabitedCache (ReplaceHasMany (''planet'', ''earth'') ''inhabitants'' [])))
     (''planet'', ''earth'') = Some [''inhabitant/human/relationships/planets/data/planet:earth'']"
  "revLink (fst (runHooks inhabitedCache (ReplaceHasMany (''planet'', ''earth'') ''inhabitants'' [])))
     (''inhabitant'', ''human'') = Some []"
  by code_simp+

lemma test_replaceHasOne_null:
  "revLink (fst (runHooks moonsCache (ReplaceHasOne (''moon'', ''europa'') ''planet'' None)))
     (''planet'', ''jupiter'') = Some []"
  "revLink (fst (runHooks moonsCache (ReplaceHasOne (''moon'', ''europa'') ''planet'' None)))
     (''planet'', ''saturn'') = Some [''moon/titan/relationships/planet/data'']"
  "revLink (fst (runHooks moonsCache (ReplaceHasOne (''moon'', ''europa'') ''planet'' None)))
     (''moon'', ''europa'') = Some [''planet/jupiter/relationships/moons/data/moon:europa'']"
  by code_simp+

lemma test_replaceHasOne_first:
  "revLink (fst (runHooks planetsCache
      (ReplaceHasOne (''planet'', ''earth'') ''next'' (Some (''planet'', ''saturn'')))))
     (''planet'', ''saturn'')
     = Some [''planet/jupiter/relationships/previous/data'', ''planet/earth/relationships/next/data'']"
  "revLink (fst (runHooks planetsCache
      (ReplaceHasOne (''planet'', ''earth'') ''next'' (Some (''planet'', ''saturn'')))))
     (''planet'', ''jupiter'') = Some [''planet/saturn/relationships/next/data'']"
  by code_simp+

lemma test_addToHasMany:
  "revLink (revIndex unlinkedCache) (''planet'', ''earth'') = None"
  "revLink (revIndex unlinkedCache) (''inhabitant'', ''human'') = None"
  "revLink (fst (runHooks unlinkedCache
      (AddToHasMany (''inhabitant'', ''human'') ''planets'' (''planet'', ''earth''))))
     (''planet'', ''earth'') = Some [''inhabitant/human/relationships/planets/data/planet:earth'']"
  "revLink (fst (runHooks unlinkedCache
      (AddToHasMany (''inhabitant'', ''human'') ''planets'' (''planet'', ''earth''))))
     (''inhabitant'', ''human'') = None"
  by code_simp+

lemma test_removeFromHasMany:
  "revLink (fst (runHooks inhabitedCache
      (RemoveFromHasMany (''inhabitant'', ''human'') ''planets'' (''planet'', ''earth''))))
     (''planet'', ''earth'') = Some []"
  "revLink (fst (runHooks inhabitedCache
      (RemoveFromHasMany (''inhabitant'', ''human'') ''planets'' (''planet'', ''earth''))))
     (''inhabitant'', ''human'')
     = Some [''planet/earth/relationships/inhabitants/data/inhabitant:human'']"
  by code_simp+

lemma test_replaceRecord:
  "revLink (fst (runHooks unlinkedCache (ReplaceRecord human))) (''planet'', ''earth'')
     = Some [''inhabitant/human/relationships/planets/data/planet:earth'']"
  "revLink (fst (runHooks unlinkedCache (ReplaceRecord human))) (''inhabitant'', ''human'') = None"
  by code_simp+

subsection \<open>Replacing relationships and removing records\<close>

lemma runHooks_emits:
  "(\<forall>x. operation \<noteq> RemoveRecord x) \<Longrightarrow> snd (runHooks st operation) = ([], [], [])"
  by (cases operation) (auto simp: runHooks_def beforeHook_def Let_def split: prod.splits option.splits)

lemma runHooks_plain:
  "(\<forall>x. operation \<noteq> RemoveRecord x) \<Longrightarrow> fst (runHooks st operation) = fst (afterHook st operation)"
  by (cases operation) (auto simp: runHooks_def beforeHook_def Let_def split: prod.splits option.splits)

lemma moons_replaceHasMany:
  "revLink (revIndex moonsCache) (''moon'', ''europa'')
     = Some [''planet/jupiter/relationships/moons/data/moon:europa'']"
  "revLink (revIndex moonsCache) (''moon'', ''titan'')
     = Some [''planet/saturn/relationships/moons/data/moon:titan'']"
  "priorHasMany (records moonsCache) (''planet'', ''saturn'') ''moons'' = [''moon:titan'']"
  "priorHasMany (records moonsCache) (''planet'', ''jupiter'') ''moons'' = [''moon:europa'']"
  "revLink (fst (runHooks moonsCache
      (ReplaceHasMany (''planet'', ''saturn'') ''moons'' [(''moon'', ''europa'')]))) (''moon'', ''europa'')
     = Some [''planet/jupiter/relationships/moons/data/moon:europa'',
             ''planet/saturn/relationships/moons/data/moon:europa'']"
  "revLink (fst (runHooks moonsCache
      (ReplaceHasMany (''planet'', ''saturn'') ''moons'' [(''moon'', ''europa'')]))) (''moon'', ''titan'')
     = Some []"
  "map_option (\<lambda>st. getRelationship (records st) (''planet'', ''saturn'') ''moons'')
     (patchOp 1 moonsCache (ReplaceHasMany (''planet'', ''saturn'') ''moons'' [(''moon'', ''europa'')]))
     = Some (Some (HasMany [''moon:europa'']))"
  by code_simp+

text \<open>
  Claim C7. When \<^verbatim>\<open>replaceHasMany(X, R, Ys)\<close> goes through the processor, the index
  is updated by the difference between the members \<open>X.R\<close> had and the new ones. For a
  member that is no longer there, the path of its slot is taken out of the entry of that
  record. For a record that is newly there, the path of its slot is put into its entry.
  For a member that was there and still is, the path stays as it was, and every path
  other than the slots of \<open>X.R\<close>, so every path of another source record or
  relationship, stays in every entry as it was. The hooks emit no operation, and \<^verbatim>\<open>patch\<close>
  leaves the index of the hooks and the new members in the record. With the moons of the
  unit test, \<^verbatim>\<open>replaceHasMany(saturn, 'moons', [europa])\<close> leaves the entry of europa
  with the path from jupiter and the path from saturn, the entry of titan empty, and
  europa as the only moon of saturn.
\<close>

theorem replaceHasMany_updates_index_by_difference:
  "let prior = priorHasMany (records st) x r;
       rv' = fst (runHooks st (ReplaceHasMany x r ys))
   in (s \<in> set prior \<and> s \<notin> toIdentifier ` set ys \<longrightarrow>
         hasManyPath x r s \<notin> set (revPaths rv' (parseIdentifier s))) \<and>
      (y \<in> set ys \<and> toIdentifier y \<notin> set prior \<longrightarrow>
         hasManyPath x r (toIdentifier y) \<in> set (revPaths rv' y)) \<and>
      (s \<in> set prior \<and> s \<in> toIdentifier ` set ys \<longrightarrow>
         (hasManyPath x r s \<in> set (revPaths rv' z)
            \<longleftrightarrow> hasManyPath x r s \<in> set (revPaths (revIndex st) z))) \<and>
      ((\<forall>member. p \<noteq> hasManyPath x r member) \<longrightarrow>
         (p \<in> set (revPaths rv' z) \<longleftrightarrow> p \<in> set (revPaths (revIndex st) z))) \<and>
      snd (runHooks st (ReplaceHasMany x r ys)) = ([], [], []) \<and>
      patchOp (Suc n) st (ReplaceHasMany x r ys) =
        Some \<lparr> records = applyOperation (records st) (ReplaceHasMany x r ys), revIndex = rv' \<rparr> \<and>
      revLink (fst (runHooks moonsCache
          (ReplaceHasMany (''planet'', ''saturn'') ''moons'' [(''moon'', ''europa'')])))
        (''moon'', ''europa'')
        = Some [''planet/jupiter/relationships/moons/data/moon:europa'',
                ''planet/saturn/relationships/moons/data/moon:europa''] \<and>
      revLink (fst (runHooks moonsCache
          (ReplaceHasMany (''planet'', ''saturn'') ''moons'' [(''moon'', ''europa'')])))
        (''moon'', ''titan'') = Some [] \<and>
      map_option (\<lambda>st. getRelationship (records st) (''planet'', ''saturn'') ''moons'')
        (patchOp 1 moonsCache
          (ReplaceHasMany (''planet'', ''saturn'') ''moons'' [(''moon'', ''europa'')]))
        = Some (Some (HasMany [''moon:europa'']))"
proof -
  let ?op = "ReplaceHasMany x r ys"
  let ?prior = "priorHasMany (records st) x r"
  let ?rv = "fst (runHooks st ?op)"
  note ch = revPaths_replaceHasMany[of st x r ys]
  have cleared: "hasManyPath x r s \<notin> set (revPaths ?rv (parseIdentifier s))"
    if "s \<in> set ?prior" and "s \<notin> toIdentifier ` set ys"
    using that unfolding ch by (auto simp: hasManyPath_inject)
  have added: "hasManyPath x r (toIdentifier y) \<in> set (revPaths ?rv y)"
    if "y \<in> set ys" and "toIdentifier y \<notin> set ?prior"
    using that unfolding ch by auto
  have kept: "hasManyPath x r s \<in> set (revPaths ?rv z)
      \<longleftrightarrow> hasManyPath x r s \<in> set (revPaths (revIndex st) z)"
    if "s \<in> set ?prior" and "s \<in> toIdentifier ` set ys"
    using that unfolding ch by (auto simp: hasManyPath_inject)
  have others: "p \<in> set (revPaths ?rv z) \<longleftrightarrow> p \<in> set (revPaths (revIndex st) z)"
    if "\<forall>member. p \<noteq> hasManyPath x r member"
    using that unfolding ch by auto
  have plain: "\<forall>x'. ?op \<noteq> RemoveRecord x'"
    by simp
  have emits: "snd (runHooks st ?op) = ([], [], [])"
    by (rule runHooks_emits[OF plain])
  have patched: "patchOp (Suc n) st ?op =
      Some \<lparr> records = applyOperation (records st) ?op, revIndex = ?rv \<rparr>"
    unfolding runHooks_plain[OF plain] by (rule patchOp_plain[OF plain])
  from cleared added kept others emits patched moons_replaceHasMany(5,6,7) show ?thesis
    unfolding Let_def by blast
qed

lemma absurd_member:
  "\<forall>member. ''planet/jupiter/relationships/moons/data/moon:europa''
      \<noteq> hasManyPath (''planet'', ''saturn'') ''moons'' member"
  by (simp add: hasManyPath_def hasOnePath_def)

lemma moons_fixed:
  "revPaths (revIndex moonsCache) (''moon'', ''europa'')
     = [''planet/jupiter/relationships/moons/data/moon:europa'']"
  "revPaths (revIndex moonsCache) (''moon'', ''titan'')
     = [''planet/saturn/relationships/moons/data/moon:titan'']"
  "hasManyPath (''planet'', ''saturn'') ''moons'' ''moon:titan''
     = ''planet/saturn/relationships/moons/data/moon:titan''"
  "toIdentifier (''moon'', ''europa'') = ''moon:europa''"
  "toIdentifier (''moon'', ''titan'') = ''moon:titan''"
  "parseIdentifier ''moon:titan'' = (''moon'', ''titan'')"
  by code_simp+

theorem replaceHasMany_updates_index_by_difference_witness:
  "hasManyPath (''planet'', ''saturn'') ''moons'' ''moon:titan''
     \<notin> set (revPaths (fst (runHooks moonsCache
           (ReplaceHasMany (''planet'', ''saturn'') ''moons'' [(''moon'', ''europa'')])))
         (parseIdentifier ''moon:titan'')) \<and>
   hasManyPath (''planet'', ''saturn'') ''moons'' (toIdentifier (''moon'', ''europa''))
     \<in> set (revPaths (fst (runHooks moonsCache
           (ReplaceHasMany (''planet'', ''saturn'') ''moons'' [(''moon'', ''europa'')])))
         (''moon'', ''europa'')) \<and>
   ''planet/jupiter/relationships/moons/data/moon:europa''
     \<in> set (revPaths (fst (runHooks moonsCache
           (ReplaceHasMany (''planet'', ''saturn'') ''moons'' [(''moon'', ''europa'')])))
         (''moon'', ''europa'')) \<and>
   hasManyPath (''planet'', ''saturn'') ''moons'' ''moon:titan''
     \<in> set (revPaths (fst (runHooks moonsCache
           (ReplaceHasMany (''planet'', ''saturn'') ''moons'' [(''moon'', ''titan'')])))
         (''moon'', ''titan''))"
  using
    replaceHasMany_updates_index_by_difference[where st = moonsCache
      and x = "(''planet'', ''saturn'')" and r = "''moons''" and ys = "[(''moon'', ''europa'')]"
      and s = "''moon:titan''" and y = "(''moon'', ''europa'')" and z = "(''moon'', ''europa'')"
      and p = "''planet/jupiter/relationships/moons/data/moon:europa''" and n = 0]
    replaceHasMany_updates_index_by_difference[where st = moonsCache
      and x = "(''planet'', ''saturn'')" and r = "''moons''" and ys = "[(''moon'', ''titan'')]"
      and s = "''moon:titan''" and y = "(''moon'', ''europa'')" and z = "(''moon'', ''titan'')"
      and p = "''planet/jupiter/relationships/moons/data/moon:europa''" and n = 0]
    absurd_member
  by (simp add: Let_def moons_replaceHasMany(3) moons_fixed del: patchOp.simps)

lemma planets_replaceHasOne:
  "revLink (revIndex planetsCache) (''planet'', ''jupiter'')
     = Some [''planet/saturn/relationships/next/data'']"
  "revLink (fst (runHooks planetsCache
      (ReplaceHasOne (''planet'', ''earth'') ''next'' (Some (''planet'', ''jupiter'')))))
      (''planet'', ''jupiter'')
     = Some [''planet/saturn/relationships/next/data'', ''planet/earth/relationships/next/data'']"
  "revLink (fst (runHooks planetsCache
      (ReplaceHasOne (''planet'', ''earth'') ''next'' (Some (''planet'', ''jupiter'')))))
      (''planet'', ''saturn'')
     = Some [''planet/jupiter/relationships/previous/data'']"
  "revLink (fst (runHooks moonsCache
      (ReplaceHasOne (''moon'', ''europa'') ''planet'' (Some (''planet'', ''saturn'')))))
      (''planet'', ''jupiter'') = Some []"
  "revLink (fst (runHooks moonsCache
      (ReplaceHasOne (''moon'', ''europa'') ''planet'' (Some (''planet'', ''saturn'')))))
      (''planet'', ''saturn'')
     = Some [''moon/titan/relationships/planet/data'', ''moon/europa/relationships/planet/data'']"
  "map_option (\<lambda>st. getRelationship (records st) (''planet'', ''earth'') ''next'')
     (patchOp 1 planetsCache
        (ReplaceHasOne (''planet'', ''earth'') ''next'' (Some (''planet'', ''jupiter''))))
     = Some (Some (HasOne (Some ''planet:jupiter'')))"
  by code_simp+

text \<open>
  Claim C8. When \<^verbatim>\<open>replaceHasOne(X, R, Y)\<close> goes through the processor, the path
  \<^verbatim>\<open>X.type/X.id/relationships/R/data\<close> is taken out of the entry of the record
  \<open>X.R\<close> pointed to before and put into the entry of the new record \<open>Y\<close>, if
  there is one. Every other path, so every path of another source record, stays in every
  entry as it was. The hooks emit no operation, and \<^verbatim>\<open>patch\<close> leaves the index of the
  hooks. With the planets of the unit test, where the \<^verbatim>\<open>next\<close> of saturn is jupiter,
  \<^verbatim>\<open>replaceHasOne(earth, 'next', jupiter)\<close> leaves the entry of jupiter with the path
  from saturn and the path from earth; with the moons, moving europa from jupiter to
  saturn leaves the entry of jupiter empty and the entry of saturn with the paths from
  titan and from europa.
\<close>

theorem replaceHasOne_moves_index_entry:
  "let rv' = fst (runHooks st (ReplaceHasOne x r ynew))
   in (priorHasOne (records st) x r = Some s \<and> ynew \<noteq> Some (parseIdentifier s) \<longrightarrow>
         hasOnePath x r \<notin> set (revPaths rv' (parseIdentifier s))) \<and>
      (ynew = Some y \<longrightarrow> hasOnePath x r \<in> set (revPaths rv' y)) \<and>
      hasOnePath x r = fst x @ ''/'' @ snd x @ ''/relationships/'' @ r @ ''/data'' \<and>
      (p \<noteq> hasOnePath x r \<longrightarrow>
         (p \<in> set (revPaths rv' z) \<longleftrightarrow> p \<in> set (revPaths (revIndex st) z))) \<and>
      snd (runHooks st (ReplaceHasOne x r ynew)) = ([], [], []) \<and>
      patchOp (Suc n) st (ReplaceHasOne x r ynew) =
        Some \<lparr> records = applyOperation (records st) (ReplaceHasOne x r ynew), revIndex = rv' \<rparr> \<and>
      revLink (fst (runHooks planetsCache
          (ReplaceHasOne (''planet'', ''earth'') ''next'' (Some (''planet'', ''jupiter'')))))
        (''planet'', ''jupiter'')
        = Some [''planet/saturn/relationships/next/data'',
                ''planet/earth/relationships/next/data''] \<and>
      revLink (fst (runHooks moonsCache
          (ReplaceHasOne (''moon'', ''europa'') ''planet'' (Some (''planet'', ''saturn'')))))
        (''planet'', ''jupiter'') = Some [] \<and>
      revLink (fst (runHooks moonsCache
          (ReplaceHasOne (''moon'', ''europa'') ''planet'' (Some (''planet'', ''saturn'')))))
        (''planet'', ''saturn'')
        = Some [''moon/titan/relationships/planet/data'',
                ''moon/europa/relationships/planet/data'']"
proof -
  let ?op = "ReplaceHasOne x r ynew"
  let ?rv = "fst (runHooks st ?op)"
  note ch = revPaths_replaceHasOne[of st x r ynew]
  have cleared: "hasOnePath x r \<notin> set (revPaths ?rv (parseIdentifier s))"
    if "priorHasOne (records st) x r = Some s" and "ynew \<noteq> Some (parseIdentifier s)"
    using that unfolding ch by auto
  have added: "hasOnePath x r \<in> set (revPaths ?rv y)" if "ynew = Some y"
    using that unfolding ch by auto
  have others: "p \<in> set (revPaths ?rv z) \<longleftrightarrow> p \<in> set (revPaths (revIndex st) z)"
    if "p \<noteq> hasOnePath x r"
    using that unfolding ch by auto
  have path: "hasOnePath x r = fst x @ ''/'' @ snd x @ ''/relationships/'' @ r @ ''/data''"
    by (simp add: hasOnePath_def)
  have plain: "\<forall>x'. ?op \<noteq> RemoveRecord x'"
    by simp
  have emits: "snd (runHooks st ?op) = ([], [], [])"
    by (rule runHooks_emits[OF plain])
  have patched: "patchOp (Suc n) st ?op =
      Some \<lparr> records = applyOperation (records st) ?op, revIndex = ?rv \<rparr>"
    unfolding runHooks_plain[OF plain] by (rule patchOp_plain[OF plain])
  from cleared added others path emits patched planets_replaceHasOne(2,4,5) show ?thesis
    unfolding Let_def by blast
qed

lemma europa_fixed:
  "priorHasOne (records moonsCache) (''moon'', ''europa'') ''planet'' = Some ''planet:jupiter''"
  "parseIdentifier ''planet:jupiter'' = (''planet'', ''jupiter'')"
  "hasOnePath (''moon'', ''europa'') ''planet'' = ''moon/europa/relationships/planet/data''"
  "revPaths (revIndex moonsCache) (''planet'', ''saturn'') = [''moon/titan/relationships/planet/data'']"
  by code_simp+

theorem replaceHasOne_moves_index_entry_witness:
  "hasOnePath (''moon'', ''europa'') ''planet''
     \<notin> set (revPaths (fst (runHooks moonsCache
           (ReplaceHasOne (''moon'', ''europa'') ''planet'' (Some (''planet'', ''saturn'')))))
         (parseIdentifier ''planet:jupiter'')) \<and>
   hasOnePath (''moon'', ''europa'') ''planet''
     \<in> set (revPaths (fst (runHooks moonsCache
           (ReplaceHasOne (''moon'', ''europa'') ''planet'' (Some (''planet'', ''saturn'')))))
         (''planet'', ''saturn'')) \<and>
   ''moon/titan/relationships/planet/data''
     \<in> set (revPaths (fst (runHooks moonsCache
           (ReplaceHasOne (''moon'', ''europa'') ''planet'' (Some (''planet'', ''saturn'')))))
         (''planet'', ''saturn''))"
  using
    replaceHasOne_moves_index_entry[where st = moonsCache
      and x = "(''moon'', ''europa'')" and r = "''planet''"
      and ynew = "Some (''planet'', ''saturn'')" and s = "''planet:jupiter''"
      and y = "(''planet'', ''saturn'')" and z = "(''planet'', ''saturn'')"
      and p = "''moon/titan/relationships/planet/data''" and n = 0]
  by (simp add: Let_def europa_fixed del: patchOp.simps)

lemma inhabited_remove_human:
  "revLink (revIndex inhabitedCache) (''inhabitant'', ''human'')
     = Some [''planet/earth/relationships/inhabitants/data/inhabitant:human'']"
  "revLink (revIndex inhabitedCache) (''planet'', ''earth'')
     = Some [''inhabitant/human/relationships/planets/data/planet:earth'']"
  "snd (afterHook inhabitedCache (RemoveRecord (''inhabitant'', ''human'')))
     = [RemoveFromHasMany (''planet'', ''earth'') ''inhabitants'' (''inhabitant'', ''human'')]"
  "revLink (fst (runHooks inhabitedCache (RemoveRecord (''inhabitant'', ''human''))))
     (''inhabitant'', ''human'') = None"
  "revLink (fst (runHooks inhabitedCache (RemoveRecord (''inhabitant'', ''human''))))
     (''planet'', ''earth'') = Some []"
  "map_option (\<lambda>st. (getRelationship (records st) (''planet'', ''earth'') ''inhabitants'',
                       records st (''inhabitant'', ''human''),
                       revLink (revIndex st) (''inhabitant'', ''human''),
                       revLink (revIndex st) (''planet'', ''earth'')))
     (patchOp 2 inhabitedCache (RemoveRecord (''inhabitant'', ''human'')))
   = Some (Some (HasMany []), None, None, Some [])"
  by code_simp+

lemma afterHook_removeRecord_ops:
  assumes "wellFormed (revIndex st)"
  shows "map Some (snd (afterHook st (RemoveRecord x))) = map (compensate x) (revPaths (revIndex st) x)"
proof -
  have "\<forall>p \<in> set (revPaths (revIndex st) x). compensate x p \<noteq> None"
    using assms compensate_total[of _ x] unfolding wellFormed_alt by fastforce
  then show ?thesis
    by (simp add: afterHook_emits map_filter_total)
qed

text \<open>
  Claim C1. For a record \<open>X\<close>, the \<^verbatim>\<open>after\<close> hook of \<^verbatim>\<open>removeRecord(X)\<close> returns
  one operation for each back-pointer kept in \<^verbatim>\<open>_rev[X.type][X.id]\<close>, in their order,
  and each of them takes \<open>X\<close> out of a hasMany or sets a hasOne to \<^verbatim>\<open>null\<close>: for
  the path of a hasMany slot of a record \<open>s\<close> it is \<^verbatim>\<open>removeFromHasMany(s, r, X)\<close>,
  for the path of a hasOne slot \<^verbatim>\<open>replaceHasOne(s, r, null)\<close>. (The index is well formed
  after every \<^verbatim>\<open>reset\<close> and stays so under \<^verbatim>\<open>patch\<close>.) After the \<^verbatim>\<open>finally\<close> hook
  the index has no entry for \<open>X\<close>, whether the hooks are called in a row or by
  \<^verbatim>\<open>patch\<close>, which ends with \<open>X\<close> out of the records too. With earth and human of the
  unit test, removing human emits \<^verbatim>\<open>removeFromHasMany(earth, 'inhabitants', human)\<close>, and
  \<^verbatim>\<open>patch\<close> leaves the inhabitants of earth empty, no entry for human in the index and
  an empty entry for earth.
\<close>

theorem removeRecord_cleans_back_pointers:
  "(wellFormed (revIndex st) \<longrightarrow>
      map Some (snd (afterHook st (RemoveRecord x)))
        = map (compensate x) (revPaths (revIndex st) x) \<and>
      length (snd (afterHook st (RemoveRecord x))) = length (revPaths (revIndex st) x)) \<and>
   (\<forall>operation \<in> set (snd (afterHook st (RemoveRecord x))). isCompensation x operation) \<and>
   (CHR ''/'' \<notin> set (fst s) \<and> CHR ''/'' \<notin> set (snd s) \<and> CHR ''/'' \<notin> set r \<longrightarrow>
      compensate x (hasManyPath s r (toIdentifier x)) = Some (RemoveFromHasMany s r x) \<and>
      compensate x (hasOnePath s r) = Some (ReplaceHasOne s r None)) \<and>
   wellFormed (revIndex (resetCache data)) \<and>
   (wellFormed (revIndex st) \<and> patchOp k st operation = Some st'' \<longrightarrow> wellFormed (revIndex st'')) \<and>
   revLink (fst (finallyHook st (RemoveRecord x))) x = None \<and>
   revLink (fst (runHooks st (RemoveRecord x))) x = None \<and>
   fst (snd (snd (runHooks st (RemoveRecord x)))) = snd (afterHook st (RemoveRecord x)) \<and>
   (\<exists>st'. patchOp (Suc (Suc n)) st (RemoveRecord x) = Some st' \<and>
          revLink (revIndex st') x = None \<and> records st' x = None) \<and>
   snd (afterHook inhabitedCache (RemoveRecord (''inhabitant'', ''human'')))
     = [RemoveFromHasMany (''planet'', ''earth'') ''inhabitants'' (''inhabitant'', ''human'')] \<and>
   revLink (fst (runHooks inhabitedCache (RemoveRecord (''inhabitant'', ''human''))))
     (''inhabitant'', ''human'') = None \<and>
   revLink (fst (runHooks inhabitedCache (RemoveRecord (''inhabitant'', ''human''))))
     (''planet'', ''earth'') = Some [] \<and>
   map_option (\<lambda>st. (getRelationship (records st) (''planet'', ''earth'') ''inhabitants'',
                       records st (''inhabitant'', ''human''),
                       revLink (revIndex st) (''inhabitant'', ''human''),
                       revLink (revIndex st) (''planet'', ''earth'')))
     (patchOp 2 inhabitedCache (RemoveRecord (''inhabitant'', ''human'')))
   = Some (Some (HasMany []), None, None, Some [])"
proof -
  have ops: "map Some (snd (afterHook st (RemoveRecord x)))
        = map (compensate x) (revPaths (revIndex st) x) \<and>
      length (snd (afterHook st (RemoveRecord x))) = length (revPaths (revIndex st) x)"
    if "wellFormed (revIndex st)"
  proof -
    note m = afterHook_removeRecord_ops[OF that, of x]
    from arg_cong[OF m, of length] show ?thesis
      using m by simp
  qed
  have kinds: "\<forall>operation \<in> set (snd (afterHook st (RemoveRecord x))). isCompensation x operation"
    by (simp add: afterHook_emits compensations_emitted)
  have decode: "compensate x (hasManyPath s r (toIdentifier x)) = Some (RemoveFromHasMany s r x) \<and>
      compensate x (hasOnePath s r) = Some (ReplaceHasOne s r None)"
    if "CHR ''/'' \<notin> set (fst s) \<and> CHR ''/'' \<notin> set (snd s) \<and> CHR ''/'' \<notin> set r"
    using that by (simp add: compensate_hasManyPath compensate_hasOnePath)
  have inv: "wellFormed (revIndex st'')"
    if "wellFormed (revIndex st) \<and> patchOp k st operation = Some st''"
    using that wellFormed_patchOp by blast
  have fin: "revLink (fst (finallyHook st (RemoveRecord x))) x = None"
    by (simp add: revLink_deleteRevLinks)
  have hooks: "revLink (fst (runHooks st (RemoveRecord x))) x = None"
    by (simp add: runHooks_after(1) revLink_deleteRevLinks del: afterHook.simps)
  have emitted: "fst (snd (snd (runHooks st (RemoveRecord x)))) = snd (afterHook st (RemoveRecord x))"
    by (rule runHooks_after(2))
  have patched: "\<exists>st'. patchOp (Suc (Suc n)) st (RemoveRecord x) = Some st' \<and>
          revLink (revIndex st') x = None \<and> records st' x = None"
    using patchOp_removeRecord[of n st x] by (elim exE conjE) (intro exI conjI)
  from ops kinds decode wellFormed_resetCache[of data] inv fin hooks emitted patched
    inhabited_remove_human(3,4,5,6)
  show ?thesis
    by (intro conjI impI) (assumption | simp del: patchOp.simps afterHook.simps finallyHook.simps)+
qed

lemma human_fixed:
  "revPaths (revIndex inhabitedCache) (''inhabitant'', ''human'')
     = [''planet/earth/relationships/inhabitants/data/inhabitant:human'']"
  "hasManyPath (''planet'', ''earth'') ''inhabitants'' (toIdentifier (''inhabitant'', ''human''))
     = ''planet/earth/relationships/inhabitants/data/inhabitant:human''"
  by code_simp+

theorem removeRecord_cleans_back_pointers_witness:
  "wellFormed (revIndex inhabitedCache) \<and>
   length (snd (afterHook inhabitedCache (RemoveRecord (''inhabitant'', ''human'')))) = 1 \<and>
   compensate (''inhabitant'', ''human'')
       ''planet/earth/relationships/inhabitants/data/inhabitant:human''
     = Some (RemoveFromHasMany (''planet'', ''earth'') ''inhabitants'' (''inhabitant'', ''human'')) \<and>
   isCompensation (''inhabitant'', ''human'')
     (RemoveFromHasMany (''planet'', ''earth'') ''inhabitants'' (''inhabitant'', ''human'')) \<and>
   wellFormed (revIndex (the (patchOp 2 inhabitedCache (RemoveRecord (''inhabitant'', ''human'')))))"
proof -
  have wf: "wellFormed (revIndex inhabitedCache)"
    unfolding inhabitedCache_def by (rule wellFormed_resetCache)
  have some: "patchOp 2 inhabitedCache (RemoveRecord (''inhabitant'', ''human''))
      = Some (the (patchOp 2 inhabitedCache (RemoveRecord (''inhabitant'', ''human''))))"
    using inhabited_remove_human(6)
    by (cases "patchOp 2 inhabitedCache (RemoveRecord (''inhabitant'', ''human''))")
       (simp_all del: patchOp.simps)
  note t = removeRecord_cleans_back_pointers[where st = inhabitedCache
      and x = "(''inhabitant'', ''human'')" and s = "(''planet'', ''earth'')"
      and r = "''inhabitants''" and data = "[]" and k = 2
      and operation = "RemoveRecord (''inhabitant'', ''human'')"
      and st'' = "the (patchOp 2 inhabitedCache (RemoveRecord (''inhabitant'', ''human'')))"
      and n = 0]
  from t[THEN conjunct1] wf
  have len: "length (snd (afterHook inhabitedCache (RemoveRecord (''inhabitant'', ''human''))))
      = length (revPaths (revIndex inhabitedCache) (''inhabitant'', ''human''))"
    by (simp del: afterHook.simps)
  have free: "CHR ''/'' \<notin> set (fst (''planet'', ''earth'')) \<and>
      CHR ''/'' \<notin> set (snd (''planet'', ''earth'')) \<and> CHR ''/'' \<notin> set ''inhabitants''"
    by simp
  from t[THEN conjunct2, THEN conjunct2, THEN conjunct1] free
  have dec: "compensate (''inhabitant'', ''human'')
       (hasManyPath (''planet'', ''earth'') ''inhabitants'' (toIdentifier (''inhabitant'', ''human'')))
     = Some (RemoveFromHasMany (''planet'', ''earth'') ''inhabitants'' (''inhabitant'', ''human''))"
    by (rule mp[THEN conjunct1])
  from t[THEN conjunct2, THEN conjunct1] inhabited_remove_human(3)
  have kind: "isCompensation (''inhabitant'', ''human'')
     (RemoveFromHasMany (''planet'', ''earth'') ''inhabitants'' (''inhabitant'', ''human''))"
    by (simp del: afterHook.simps)
  from t[THEN conjunct2, THEN conjunct2, THEN conjunct2, THEN conjunct2, THEN conjunct1]
  have "wellFormed (revIndex (the (patchOp 2 inhabitedCache (RemoveRecord (''inhabitant'', ''human'')))))"
    using wf some by (rule mp[OF _ conjI])
  with wf len dec kind show ?thesis
    by (simp only: human_fixed list.size One_nat_def simp_thms)
qed

end
